theory Spec2Isabelle
  imports Complex_Main "HOL-Library.AList" "HOL-Library.Multiset"
begin

section \<open>Data model of the deviation detection engine\<close>

text \<open>
  The engine is \<^verbatim>\<open>deviation_detection_engine.py\<close>. Its dictionaries with a fixed set of keys
  are records here; its dictionaries with computed keys (the pattern index, the
  \<^verbatim>\<open>Counter\<close>, the expectations) are association lists in insertion order, read with
  \<open>map_of\<close> and written with \<open>AList.update\<close>, which replaces the value of a key that is
  present and appends a key that is new, as a Python \<^verbatim>\<open>dict\<close> does.

  Numbers: Python's \<^verbatim>\<open>int\<close> is \<open>int\<close>. A Python \<^verbatim>\<open>float\<close> is a \<open>real\<close>, with \<open>+inf\<close>
  as a value of its own (\<open>PInf\<close>); the quotient of two counts is the exact quotient, the
  rounding of the division is not modelled. \<^verbatim>\<open>math.log2\<close> and \<^verbatim>\<open>str.lower\<close> are library
  functions, not part of the program: they are the parameters \<open>log2\<close> and \<open>lower\<close> of
  every function that calls them.
\<close>

datatype error = ValueError | KeyError

datatype pyfloat = Fin real | PInf

text \<open>Python's \<^verbatim>\<open><\<close> on two floats of which neither is NaN or \<open>-inf\<close>.\<close>

fun float_less :: "pyfloat \<Rightarrow> pyfloat \<Rightarrow> bool" where
  "float_less (Fin x) (Fin y) = (x < y)"
| "float_less (Fin x) PInf = True"
| "float_less PInf y = False"

text \<open>The finite values of a double: a significand of 53 bits and a binary exponent.\<close>

definition is_double :: "real \<Rightarrow> bool" where
  "is_double x \<longleftrightarrow>
     (\<exists>m e :: int. \<bar>m\<bar> < 2 ^ 53 \<and> - 1074 \<le> e \<and> e \<le> 971
                     \<and> x = real_of_int m * 2 powr real_of_int e)"

text \<open>Rounding to the nearest integer, a tie going to the even one.\<close>

definition round_even :: "real \<Rightarrow> int" where
  "round_even x =
     (let r = \<lfloor>x\<rfloor>; d = x - real_of_int r
      in if d < 1 / 2 then r else if 1 / 2 < d then r + 1 else if even r then r else r + 1)"

text \<open>Rounding to the nearest double, for a value that is 0 or has a magnitude in the
  range of the normal doubles: the unit is that of the binade of the value.\<close>

definition nearest_double :: "real \<Rightarrow> real" where
  "nearest_double x =
     (if x = 0 then 0
      else (let u = 2 powr (real_of_int \<lfloor>log 2 \<bar>x\<bar>\<rfloor> - 52)
            in real_of_int (round_even (x / u)) * u))"

text \<open>A correctly rounded \<^verbatim>\<open>math.log2\<close>: the double nearest to the logarithm. The logarithm
  of a positive double is 0 or has a magnitude of at most 1074 and more than \<open>1 / 2 ^ 54\<close>,
  inside the range of the normal doubles. It is the instance of \<open>log2\<close> on the concrete
  inputs.\<close>

definition log2_nearest :: "real \<Rightarrow> real" where
  "log2_nearest p = nearest_double (log 2 p)"

text \<open>A formula of the database file, as \<^verbatim>\<open>build_formula_patterns\<close> reads it.\<close>

record db_formula =
  db_pattern :: string
  db_frequency :: int
  db_position :: string
  db_semantic_category :: "string option"

text \<open>An element of a character's pattern list (keys \<^verbatim>\<open>pattern\<close>, \<^verbatim>\<open>original\<close>, \<^verbatim>\<open>type\<close>,
  \<^verbatim>\<open>position\<close>, \<^verbatim>\<open>frequency\<close>, \<^verbatim>\<open>semantic\<close>).\<close>

record formula =
  pattern :: string
  original :: string
  ftype :: string
  position :: string
  frequency :: int
  semantic :: string

record mention =
  character :: string
  line :: string
  line_num :: int

text \<open>The value stored under a character in \<^verbatim>\<open>expectations\<close>.\<close>

record profile =
  total_mentions :: int
  formula_counts :: "(string \<times> int) list"
  formula_probabilities :: "(string \<times> real) list"

text \<open>The dictionary returned by \<^verbatim>\<open>analyze_mention_surprisal\<close>; the bare-mention branch
  has no key \<^verbatim>\<open>primary_formula\<close>, which is \<open>None\<close> here.\<close>

record analysis =
  mention_of :: mention
  detected_formulae :: "formula list"
  primary_formula :: "formula option"
  atype :: string
  probability :: real
  surprisal :: pyfloat
  is_deviation :: bool

text \<open>A number of the JSON output: \<^verbatim>\<open>json.dump\<close> writes an \<^verbatim>\<open>int\<close> and a \<^verbatim>\<open>float\<close>
  differently, and Python's \<^verbatim>\<open>==\<close> compares them by value.\<close>

datatype json_number = JInt int | JFloat real

fun json_value :: "json_number \<Rightarrow> real" where
  "json_value (JInt i) = real_of_int i"
| "json_value (JFloat x) = x"

record entry =
  e_line_num :: int
  e_character :: string
  e_line :: string
  e_type :: string
  e_probability :: real
  e_surprisal :: json_number
  e_is_deviation :: bool
  e_detected_formulae :: "string list option"
  e_primary_formula :: "string option"

record deviation_data =
  all_analyses :: "entry list"
  high_surprisal_count :: nat
  high_surprisal_threshold :: real

section \<open>The functions\<close>

subsection \<open>Pattern index\<close>

definition character_patterns ::
  "(string \<Rightarrow> string) \<Rightarrow> (string \<times> db_formula list) list \<Rightarrow> formula list" where
  "character_patterns lower by_type =
     concat (map (\<lambda>(formula_type, formulae).
       map (\<lambda>f. \<lparr>pattern = lower (db_pattern f), original = db_pattern f,
                  ftype = formula_type, position = db_position f,
                  frequency = db_frequency f,
                  semantic = (case db_semantic_category f of None \<Rightarrow> [] | Some s \<Rightarrow> s)\<rparr>)
           formulae) by_type)"

definition build_formula_patterns ::
  "(string \<Rightarrow> string) \<Rightarrow> (string \<times> (string \<times> db_formula list) list) list
     \<Rightarrow> (string \<times> formula list) list" where
  "build_formula_patterns lower database =
     fold (\<lambda>(c, by_type) patterns. AList.update c (character_patterns lower by_type) patterns)
       database []"

subsection \<open>Mention scanner\<close>

text \<open>Python's \<^verbatim>\<open>needle in haystack\<close> on strings: the needle starts at some position.\<close>

fun starts_with :: "string \<Rightarrow> string \<Rightarrow> bool" where
  "starts_with [] hay = True"
| "starts_with (n # ns) [] = False"
| "starts_with (n # ns) (h # hs) = (n = h \<and> starts_with ns hs)"

fun str_contains :: "string \<Rightarrow> string \<Rightarrow> bool" where
  "str_contains needle [] = (needle = [])"
| "str_contains needle (h # hs) = (starts_with needle (h # hs) \<or> str_contains needle hs)"

definition detect_formulae_in_mention ::
  "(string \<Rightarrow> string) \<Rightarrow> mention \<Rightarrow> (string \<times> formula list) list \<Rightarrow> formula list" where
  "detect_formulae_in_mention lower m formula_patterns =
     (let line_lower = lower (line m) in
      case map_of formula_patterns (character m) of
        None \<Rightarrow> []
      | Some fs \<Rightarrow>
          fold (\<lambda>f detected. if str_contains (pattern f) line_lower then detected @ [f]
                              else detected) fs [])"

subsection \<open>Expectation model\<close>

text \<open>\<^verbatim>\<open>formula_counts[k] += 1\<close> on a \<^verbatim>\<open>Counter\<close>: a missing key counts as 0.\<close>

fun counter_incr :: "string \<Rightarrow> (string \<times> int) list \<Rightarrow> (string \<times> int) list" where
  "counter_incr k [] = [(k, 1)]"
| "counter_incr k ((k', v) # kvs) =
     (if k' = k then (k', v + 1) # kvs else (k', v) # counter_incr k kvs)"

text \<open>\<^verbatim>\<open>d.get(k, default)\<close>.\<close>

definition dict_get :: "('k \<times> 'v) list \<Rightarrow> 'k \<Rightarrow> 'v \<Rightarrow> 'v" where
  "dict_get d k dflt = (case map_of d k of None \<Rightarrow> dflt | Some v \<Rightarrow> v)"

definition count_formulae ::
  "(string \<Rightarrow> string) \<Rightarrow> (string \<times> formula list) list \<Rightarrow> mention list
     \<Rightarrow> (string \<times> int) list" where
  "count_formulae lower formula_patterns char_mentions =
     fold (\<lambda>m counts.
             fold (\<lambda>f counts. counter_incr (pattern f) counts)
                  (detect_formulae_in_mention lower m formula_patterns) counts)
          char_mentions []"

definition character_profile ::
  "(string \<Rightarrow> string) \<Rightarrow> mention list \<Rightarrow> (string \<times> formula list) list \<Rightarrow> string
     \<Rightarrow> profile" where
  "character_profile lower mentions formula_patterns c =
     (let char_mentions = filter (\<lambda>m. character m = c) mentions;
          total = int (length char_mentions);
          counts = count_formulae lower formula_patterns char_mentions;
          probs = map (\<lambda>(p, n). (p, if total > 0 then real_of_int n / real_of_int total
                                       else 0)) counts
      in \<lparr>total_mentions = total, formula_counts = counts,
          formula_probabilities = probs\<rparr>)"

text \<open>The parameter \<^verbatim>\<open>database\<close> of the source is never read and is left out.\<close>

definition calculate_formula_expectations ::
  "(string \<Rightarrow> string) \<Rightarrow> mention list \<Rightarrow> (string \<times> formula list) list
     \<Rightarrow> (string \<times> profile) list" where
  "calculate_formula_expectations lower mentions formula_patterns =
     fold (\<lambda>c expectations.
             AList.update c (character_profile lower mentions formula_patterns c) expectations)
          (map fst formula_patterns) []"

subsection \<open>Surprisal scorer\<close>

text \<open>\<^verbatim>\<open>math.log2\<close> raises \<^verbatim>\<open>ValueError\<close> on a negative argument.\<close>

definition calculate_surprisal :: "(real \<Rightarrow> real) \<Rightarrow> real \<Rightarrow> error + pyfloat" where
  "calculate_surprisal log2 p =
     (if p = 0 then Inr PInf
      else if p < 0 then Inl ValueError
      else Inr (Fin (- log2 p)))"

text \<open>\<^verbatim>\<open>max(xs, key=...)\<close>: the running best is replaced only by a strictly greater key;
  \<^verbatim>\<open>ValueError\<close> on the empty list.\<close>

fun max_from :: "('a \<Rightarrow> int) \<Rightarrow> 'a \<Rightarrow> 'a list \<Rightarrow> 'a" where
  "max_from key best [] = best"
| "max_from key best (x # xs) = max_from key (if key x > key best then x else best) xs"

definition py_max :: "('a \<Rightarrow> int) \<Rightarrow> 'a list \<Rightarrow> error + 'a" where
  "py_max key xs = (case xs of [] \<Rightarrow> Inl ValueError | x # ys \<Rightarrow> Inr (max_from key x ys))"

definition guarded_surprisal :: "(real \<Rightarrow> real) \<Rightarrow> real \<Rightarrow> error + pyfloat" where
  "guarded_surprisal log2 p = (if p > 0 then calculate_surprisal log2 p else Inr PInf)"

definition analyze_mention_surprisal ::
  "(real \<Rightarrow> real) \<Rightarrow> (string \<Rightarrow> string) \<Rightarrow> mention \<Rightarrow> (string \<times> formula list) list
     \<Rightarrow> (string \<times> profile) list \<Rightarrow> error + analysis option" where
  "analyze_mention_surprisal log2 lower m formula_patterns expectations =
     (case map_of expectations (character m) of
        None \<Rightarrow> Inr None
      | Some prof \<Rightarrow>
          (let detected = detect_formulae_in_mention lower m formula_patterns in
           if detected = [] then
             (let total = total_mentions prof;
                  formula_count = sum_list (map snd (formula_counts prof));
                  bare_count = total - formula_count;
                  bare_prob = (if total > 0 then real_of_int bare_count / real_of_int total
                               else 0)
              in case guarded_surprisal log2 bare_prob of
                   Inl e \<Rightarrow> Inl e
                 | Inr s \<Rightarrow>
                     Inr (Some \<lparr>mention_of = m, detected_formulae = [],
                                primary_formula = None, atype = ''bare_mention'',
                                probability = bare_prob, surprisal = s,
                                is_deviation = (bare_prob < 3 / 10)\<rparr>))
           else
             (case py_max frequency detected of
                Inl e \<Rightarrow> Inl e
              | Inr primary \<Rightarrow>
                  (let formula_prob =
                         dict_get (formula_probabilities prof) (pattern primary) 0
                   in case guarded_surprisal log2 formula_prob of
                        Inl e \<Rightarrow> Inl e
                      | Inr s \<Rightarrow>
                          Inr (Some \<lparr>mention_of = m, detected_formulae = detected,
                                     primary_formula = Some primary, atype = ''formulaic'',
                                     probability = formula_prob, surprisal = s,
                                     is_deviation = (formula_prob < 1 / 10)\<rparr>)))))"

fun find_deviations ::
  "(real \<Rightarrow> real) \<Rightarrow> (string \<Rightarrow> string) \<Rightarrow> mention list \<Rightarrow> (string \<times> formula list) list
     \<Rightarrow> (string \<times> profile) list \<Rightarrow> error + analysis list" where
  "find_deviations log2 lower [] formula_patterns expectations = Inr []"
| "find_deviations log2 lower (m # ms) formula_patterns expectations =
     (case analyze_mention_surprisal log2 lower m formula_patterns expectations of
        Inl e \<Rightarrow> Inl e
      | Inr r \<Rightarrow>
          (case find_deviations log2 lower ms formula_patterns expectations of
             Inl e \<Rightarrow> Inl e
           | Inr analyses \<Rightarrow>
               Inr (case r of None \<Rightarrow> analyses | Some a \<Rightarrow> a # analyses)))"

subsection \<open>Deviation ranker\<close>

text \<open>\<^verbatim>\<open>list.sort(key=..., reverse=True)\<close> is stable: of two elements with equal keys the
  one that came first stays first. A stable sort has one result, and insertion from the
  right, each element going in front of the first one that is not greater, computes it.\<close>

fun insort_desc :: "analysis \<Rightarrow> analysis list \<Rightarrow> analysis list" where
  "insort_desc a [] = [a]"
| "insort_desc a (b # bs) =
     (if float_less (surprisal a) (surprisal b) then b # insort_desc a bs else a # b # bs)"

definition sort_desc :: "analysis list \<Rightarrow> analysis list" where
  "sort_desc xs = foldr insort_desc xs []"

definition identify_high_surprisal_moments :: "analysis list \<Rightarrow> pyfloat \<Rightarrow> analysis list" where
  "identify_high_surprisal_moments analyses surprisal_threshold =
     sort_desc (filter (\<lambda>a. float_less surprisal_threshold (surprisal a)) analyses)"

subsection \<open>Serialisation\<close>

definition serialize_entry :: "analysis \<Rightarrow> error + entry" where
  "serialize_entry a =
     (let base = \<lparr>e_line_num = line_num (mention_of a),
                  e_character = character (mention_of a),
                  e_line = line (mention_of a),
                  e_type = atype a,
                  e_probability = probability a,
                  e_surprisal = (case surprisal a of PInf \<Rightarrow> JInt 999 | Fin x \<Rightarrow> JFloat x),
                  e_is_deviation = is_deviation a,
                  e_detected_formulae = None,
                  e_primary_formula = None\<rparr>
      in if atype a = ''formulaic'' then
           (case primary_formula a of
              None \<Rightarrow> Inl KeyError
            | Some pf \<Rightarrow>
                Inr (base\<lparr>e_detected_formulae := Some (map original (detected_formulae a)),
                           e_primary_formula := Some (original pf)\<rparr>))
         else Inr base)"

fun serialize_all :: "analysis list \<Rightarrow> error + entry list" where
  "serialize_all [] = Inr []"
| "serialize_all (a # as) =
     (case serialize_entry a of
        Inl e \<Rightarrow> Inl e
      | Inr x \<Rightarrow> (case serialize_all as of Inl e \<Rightarrow> Inl e | Inr xs \<Rightarrow> Inr (x # xs)))"

text \<open>\<^verbatim>\<open>save_deviation_data\<close> up to the value it hands to \<^verbatim>\<open>json.dump\<close>; writing the file is
  left out.\<close>

definition save_deviation_data :: "analysis list \<Rightarrow> analysis list \<Rightarrow> error + deviation_data" where
  "save_deviation_data analyses high_surprisal =
     (case serialize_all analyses of
        Inl e \<Rightarrow> Inl e
      | Inr xs \<Rightarrow> Inr \<lparr>all_analyses = xs, high_surprisal_count = length high_surprisal,
                       high_surprisal_threshold = 3\<rparr>)"

section \<open>Concrete inputs\<close>

text \<open>
  The inputs on which the theorems below are evaluated. \<open>lower_ascii\<close> is \<^verbatim>\<open>str.lower\<close> on
  ASCII text, the alphabet of the Beta Code lines of the corpus.
\<close>

definition lower_ascii :: "string \<Rightarrow> string" where
  "lower_ascii s =
     map (\<lambda>c. case map_of (zip ''ABCDEFGHIJKLMNOPQRSTUVWXYZ'' ''abcdefghijklmnopqrstuvwxyz'') c of
                 None \<Rightarrow> c | Some d \<Rightarrow> d) s"

definition zeus_db :: "(string \<times> (string \<times> db_formula list) list) list" where
  "zeus_db = [(''Zeus'', [(''epithet'',
      [\<lparr>db_pattern = ''OS'', db_frequency = 7, db_position = ''before'',
        db_semantic_category = None\<rparr>,
       \<lparr>db_pattern = ''path/r'', db_frequency = 4, db_position = ''after'',
        db_semantic_category = Some ''kinship''\<rparr>])])]"

definition zeus_line :: mention where
  "zeus_line = \<lparr>character = ''Zeus'', line = ''Di=os Zeu/s'', line_num = 5\<rparr>"

definition hera_line :: mention where
  "hera_line = \<lparr>character = ''Hera'', line = ''Di=os path/r'', line_num = 6\<rparr>"

definition dios_patterns :: "(string \<times> formula list) list" where
  "dios_patterns = [(''Zeus'',
     [\<lparr>pattern = ''dios'', original = ''Dios'', ftype = ''epithet'', position = ''before'',
       frequency = 7, semantic = ''divine''\<rparr>,
      \<lparr>pattern = ''os'', original = ''os'', ftype = ''other'', position = ''before'',
       frequency = 7, semantic = ''''\<rparr>])]"

definition zeus1 :: mention where
  "zeus1 = \<lparr>character = ''Zeus'', line = ''Dios Zeus'', line_num = 1\<rparr>"

definition zeus2 :: mention where
  "zeus2 = \<lparr>character = ''Zeus'', line = ''Zeus dios'', line_num = 2\<rparr>"

definition zeus3 :: mention where
  "zeus3 = \<lparr>character = ''Zeus'', line = ''Zeus'', line_num = 3\<rparr>"

definition hera4 :: mention where
  "hera4 = \<lparr>character = ''Hera'', line = ''Hera'', line_num = 4\<rparr>"

definition ex_mentions :: "mention list" where
  "ex_mentions = [zeus1, zeus2, hera4, zeus3]"

definition kronos5 :: mention where
  "kronos5 = \<lparr>character = ''Zeus'', line = ''Kronos Zeus'', line_num = 5\<rparr>"

definition single_mentions :: "mention list" where
  "single_mentions = [kronos5, hera4, zeus3]"

definition tenth_profile :: profile where
  "tenth_profile = \<lparr>total_mentions = 10, formula_counts = [(''dios'', 1), (''os'', 1)],
                     formula_probabilities = [(''dios'', 1 / 10), (''os'', 1 / 10)]\<rparr>"

definition three_tenths_profile :: profile where
  "three_tenths_profile = \<lparr>total_mentions = 10, formula_counts = [(''dios'', 4), (''os'', 3)],
                     formula_probabilities = [(''dios'', 4 / 10), (''os'', 3 / 10)]\<rparr>"

definition dup_db :: "(string \<times> (string \<times> db_formula list) list) list" where
  "dup_db = [(''Zeus'', [(''epithet'',
      [\<lparr>db_pattern = ''Dios'', db_frequency = 5, db_position = ''before'',
        db_semantic_category = Some ''divine''\<rparr>,
       \<lparr>db_pattern = ''Dios'', db_frequency = 5, db_position = ''after'',
        db_semantic_category = Some ''divine''\<rparr>])])]"

definition dup_mentions :: "mention list" where
  "dup_mentions = [zeus1]"

definition ranked :: "int \<Rightarrow> real \<Rightarrow> pyfloat \<Rightarrow> analysis" where
  "ranked n p s = \<lparr>mention_of = \<lparr>character = ''Zeus'', line = ''Zeus'', line_num = n\<rparr>,
                   detected_formulae = [], primary_formula = None, atype = ''bare_mention'',
                   probability = p, surprisal = s, is_deviation = True\<rparr>"

definition sentinel_clash :: analysis where
  "sentinel_clash = ranked 3 (1 / 2 ^ 999) (Fin 999)"

definition sentinel_clash_entry :: entry where
  "sentinel_clash_entry =
     \<lparr>e_line_num = 3, e_character = ''Zeus'', e_line = ''Zeus'', e_type = ''bare_mention'',
      e_probability = 1 / 2 ^ 999, e_surprisal = JFloat 999, e_is_deviation = True,
      e_detected_formulae = None, e_primary_formula = None\<rparr>"

section \<open>Surprisal\<close>

subsection \<open>Rounding to the nearest double\<close>

lemma round_even_cases: "round_even x = \<lfloor>x\<rfloor> \<or> round_even x = \<lfloor>x\<rfloor> + 1 \<and> 1 / 2 \<le> x - real_of_int \<lfloor>x\<rfloor>"
  by (auto simp: round_even_def Let_def)

lemma round_even_lower: "real_of_int a \<le> x \<Longrightarrow> a \<le> round_even x"
proof -
  assume "real_of_int a \<le> x"
  then have "a \<le> \<lfloor>x\<rfloor>" by (simp add: le_floor_iff)
  then show ?thesis using round_even_cases [of x] by auto
qed

lemma round_even_upper: "x \<le> real_of_int b \<Longrightarrow> round_even x \<le> b"
proof -
  assume h: "x \<le> real_of_int b"
  then have f: "\<lfloor>x\<rfloor> \<le> b" by (simp add: floor_le_iff)
  show ?thesis
  proof (cases "round_even x = \<lfloor>x\<rfloor>")
    case True
    with f show ?thesis by simp
  next
    case False
    with round_even_cases [of x] have r: "round_even x = \<lfloor>x\<rfloor> + 1"
      and d: "1 / 2 \<le> x - real_of_int \<lfloor>x\<rfloor>" by auto
    have "\<lfloor>x\<rfloor> \<noteq> b"
    proof
      assume "\<lfloor>x\<rfloor> = b"
      with d h show False by simp
    qed
    with f r show ?thesis by simp
  qed
qed

lemma round_even_near: "\<bar>x - real_of_int n\<bar> < 1 / 2 \<Longrightarrow> round_even x = n"
proof -
  assume h: "\<bar>x - real_of_int n\<bar> < 1 / 2"
  show ?thesis
  proof (cases "real_of_int n \<le> x")
    case True
    with h have "\<lfloor>x\<rfloor> = n" by (intro floor_unique) auto
    with h True show ?thesis by (simp add: round_even_def Let_def)
  next
    case False
    with h have f: "\<lfloor>x\<rfloor> = n - 1" by (intro floor_unique) auto
    with h False have "1 / 2 < x - real_of_int \<lfloor>x\<rfloor>" by simp
    with f show ?thesis by (simp add: round_even_def Let_def)
  qed
qed

lemma round_even_mono: "x \<le> y \<Longrightarrow> round_even x \<le> round_even y"
proof -
  assume h: "x \<le> y"
  then have f: "\<lfloor>x\<rfloor> \<le> \<lfloor>y\<rfloor>" by (rule floor_mono)
  show ?thesis
  proof (cases "\<lfloor>x\<rfloor> = \<lfloor>y\<rfloor>")
    case True
    with h show ?thesis by (auto simp: round_even_def Let_def)
  next
    case False
    with f have "\<lfloor>x\<rfloor> + 1 \<le> \<lfloor>y\<rfloor>" by simp
    moreover have "round_even x \<le> \<lfloor>x\<rfloor> + 1" using round_even_cases [of x] by auto
    moreover have "\<lfloor>y\<rfloor> \<le> round_even y" using round_even_cases [of y] by auto
    ultimately show ?thesis by simp
  qed
qed

lemma ln_2_ge_half: "1 / 2 \<le> ln (2::real)"
proof -
  have "exp (1 / 2 :: real) \<le> 1 + 1 / 2 + (1 / 2)\<^sup>2" by (rule exp_bound) simp_all
  also have "\<dots> \<le> 2" by (simp add: power2_eq_square)
  finally have "exp (1 / 2 :: real) \<le> 2" .
  then have "ln (exp (1 / 2 :: real)) \<le> ln 2" by (subst ln_le_cancel_iff) simp_all
  then show ?thesis by simp
qed

lemma log2_one_plus: "0 \<le> e \<Longrightarrow> log 2 (1 + e) \<le> 2 * e"
proof -
  assume e: "0 \<le> e"
  then have "ln (1 + e) \<le> e" by (rule ln_add_one_self_le_self)
  moreover have "0 \<le> ln (1 + e)" using e by simp
  ultimately have "ln (1 + e) / ln 2 \<le> e / (1 / 2)"
    using ln_2_ge_half e by (intro frac_le) simp_all
  then show ?thesis by (simp add: log_def)
qed

lemma binade_bounds:
  assumes "z \<noteq> 0"
  shows "2 powr real_of_int \<lfloor>log 2 \<bar>z\<bar>\<rfloor> \<le> \<bar>z\<bar>"
    and "\<bar>z\<bar> < 2 powr (real_of_int \<lfloor>log 2 \<bar>z\<bar>\<rfloor> + 1)"
proof -
  from assms have pos: "0 < \<bar>z\<bar>" by simp
  have "real_of_int \<lfloor>log 2 \<bar>z\<bar>\<rfloor> \<le> log 2 \<bar>z\<bar>" by simp
  then show "2 powr real_of_int \<lfloor>log 2 \<bar>z\<bar>\<rfloor> \<le> \<bar>z\<bar>"
    using pos by (simp add: powr_le_iff)
  have "log 2 \<bar>z\<bar> < real_of_int \<lfloor>log 2 \<bar>z\<bar>\<rfloor> + 1" by linarith
  then show "\<bar>z\<bar> < 2 powr (real_of_int \<lfloor>log 2 \<bar>z\<bar>\<rfloor> + 1)"
    using pos by (simp add: less_powr_iff)
qed

lemma binade_unique:
  assumes "2 powr real_of_int e \<le> \<bar>z\<bar>" and "\<bar>z\<bar> < 2 powr (real_of_int e + 1)"
  shows "\<lfloor>log 2 \<bar>z\<bar>\<rfloor> = e"
proof (rule floor_unique)
  have pos: "0 < \<bar>z\<bar>" using assms(1) by (smt (verit) powr_gt_zero)
  show "real_of_int e \<le> log 2 \<bar>z\<bar>" using assms(1) pos by (simp add: powr_le_iff)
  show "log 2 \<bar>z\<bar> < real_of_int e + 1" using assms(2) pos by (simp add: less_powr_iff)
qed

lemma log2_pow10: "log 2 (1 / 2 ^ 10 :: real) = - 10"
proof -
  have "(1 / 2 ^ 10 :: real) = 2 powr (- 10)" by (simp add: powr_minus_divide)
  then show ?thesis by (simp only: log_powr_cancel)
qed

lemma nearest_double_8_16:
  assumes "8 \<le> \<bar>x\<bar>" and "\<bar>x\<bar> < 16"
  shows "nearest_double x = real_of_int (round_even (x * 2 ^ 49)) / 2 ^ 49"
proof -
  have "(2::real) powr real_of_int 3 = 8" by simp
  moreover have "(2::real) powr (real_of_int 3 + 1) = 16" by simp
  ultimately have e: "\<lfloor>log 2 \<bar>x\<bar>\<rfloor> = 3" using assms by (intro binade_unique) simp_all
  have u: "(2::real) powr (real_of_int 3 - 52) = 1 / 2 ^ 49"
    by (simp add: powr_minus_divide)
  have s: "real_of_int (round_even (x / v)) * v = real_of_int (round_even (x * 2 ^ 49)) / 2 ^ 49"
    if "v = 1 / 2 ^ 49" for v :: real
    unfolding that by simp
  have "x \<noteq> 0" using assms by auto
  then have "nearest_double x
      = real_of_int (round_even (x / 2 powr (real_of_int \<lfloor>log 2 \<bar>x\<bar>\<rfloor> - 52)))
          * 2 powr (real_of_int \<lfloor>log 2 \<bar>x\<bar>\<rfloor> - 52)"
    by (simp add: nearest_double_def Let_def)
  also have "\<dots> = real_of_int (round_even (x * 2 ^ 49)) / 2 ^ 49"
    unfolding e by (rule s) (rule u)
  finally show ?thesis .
qed

lemma log2_nearest_pow: "log2_nearest (1 / 2 ^ 10) = - 10"
proof -
  have "nearest_double (- 10) = real_of_int (round_even (- 10 * 2 ^ 49)) / 2 ^ 49"
    by (rule nearest_double_8_16) simp_all
  moreover have "round_even (- 10 * 2 ^ 49) = - 10 * 2 ^ 49"
    by (rule round_even_near) simp
  ultimately show ?thesis unfolding log2_nearest_def log2_pow10 by simp
qed

lemma log2_nearest_succ: "log2_nearest ((2 ^ 52 + 1) / 2 ^ 62) = - 10"
proof -
  define d :: real where "d = log 2 (1 + 1 / 2 ^ 52)"
  have q: "((2 ^ 52 + 1) / 2 ^ 62 :: real) = (1 / 2 ^ 10) * (1 + 1 / 2 ^ 52)" by simp
  have "log 2 ((1 / 2 ^ 10) * (1 + 1 / 2 ^ 52) :: real) = log 2 (1 / 2 ^ 10) + d"
    unfolding d_def by (rule log_mult_pos) simp_all
  then have l: "log 2 ((2 ^ 52 + 1) / 2 ^ 62 :: real) = - 10 + d"
    unfolding q log2_pow10 .
  have d0: "0 < d" unfolding d_def by simp
  have d1: "d \<le> 2 * (1 / 2 ^ 52)" unfolding d_def by (rule log2_one_plus) simp
  then have d2: "d \<le> 1 / 4" by simp
  have b: "8 \<le> \<bar>- 10 + d\<bar>" "\<bar>- 10 + d\<bar> < 16" using d0 d2 by simp_all
  have "\<bar>(- 10 + d) * 2 ^ 49 - real_of_int (- 10 * 2 ^ 49)\<bar> = d * 2 ^ 49"
    using d0 by (simp add: algebra_simps)
  also have "\<dots> \<le> 2 * (1 / 2 ^ 52) * 2 ^ 49" using d1 by simp
  also have "\<dots> < 1 / 2" by simp
  finally have "round_even ((- 10 + d) * 2 ^ 49) = - 10 * 2 ^ 49" by (rule round_even_near)
  with nearest_double_8_16 [OF b] show ?thesis unfolding log2_nearest_def l by simp
qed

lemma scale_le: "a \<le> b \<Longrightarrow> 0 < u \<Longrightarrow> a * u \<le> b * (u::real)"
  by (simp add: mult_right_mono)

lemma nearest_double_neg_bounds:
  assumes "z < 0"
  shows "nearest_double z \<le> - (2 powr real_of_int \<lfloor>log 2 \<bar>z\<bar>\<rfloor>)"
    and "- (2 powr (real_of_int \<lfloor>log 2 \<bar>z\<bar>\<rfloor> + 1)) \<le> nearest_double z"
proof -
  define e where "e = \<lfloor>log 2 \<bar>z\<bar>\<rfloor>"
  define u :: real where "u = 2 powr (real_of_int e - 52)"
  have u: "0 < u" by (simp add: u_def)
  have "(2::real) powr 52 * 2 powr (real_of_int e - 52) = 2 powr (52 + (real_of_int e - 52))"
    by (rule powr_add [symmetric])
  also have "52 + (real_of_int e - 52) = real_of_int e" by simp
  finally have A: "2 powr real_of_int e = 2 ^ 52 * u" by (simp add: u_def)
  have "(2::real) powr 53 * 2 powr (real_of_int e - 52) = 2 powr (53 + (real_of_int e - 52))"
    by (rule powr_add [symmetric])
  also have "53 + (real_of_int e - 52) = real_of_int e + 1" by simp
  finally have B: "2 powr (real_of_int e + 1) = 2 ^ 53 * u" by (simp add: u_def)
  from assms have nz: "z \<noteq> 0" by simp
  have N: "nearest_double z = real_of_int (round_even (z / u)) * u"
    using nz by (simp add: nearest_double_def Let_def u_def e_def)
  from binade_bounds [OF nz] assms
  have lo: "2 powr real_of_int e \<le> - z" and hi: "- z < 2 powr (real_of_int e + 1)"
    by (simp_all add: e_def)
  from lo have "z \<le> - (2 ^ 52) * u" unfolding A by simp
  then have "z / u \<le> - (2 ^ 52)" using u by (simp add: pos_divide_le_eq)
  then have "z / u \<le> real_of_int (- (2 ^ 52))" by simp
  then have "round_even (z / u) \<le> - (2 ^ 52)" by (rule round_even_upper)
  then have "real_of_int (round_even (z / u)) \<le> real_of_int (- (2 ^ 52))"
    by (simp only: of_int_le_iff)
  then have "real_of_int (round_even (z / u)) \<le> - (2 ^ 52)" by simp
  then have "real_of_int (round_even (z / u)) * u \<le> - (2 ^ 52) * u"
    using u by (rule scale_le)
  then show "nearest_double z \<le> - (2 powr real_of_int \<lfloor>log 2 \<bar>z\<bar>\<rfloor>)"
    unfolding N e_def [symmetric] A by simp
  from hi have "- (2 ^ 53) * u \<le> z" unfolding B by simp
  then have "- (2 ^ 53) \<le> z / u" using u by (simp add: pos_le_divide_eq)
  then have "real_of_int (- (2 ^ 53)) \<le> z / u" by simp
  then have "- (2 ^ 53) \<le> round_even (z / u)" by (rule round_even_lower)
  then have "real_of_int (- (2 ^ 53)) \<le> real_of_int (round_even (z / u))"
    by (simp only: of_int_le_iff)
  then have "- (2 ^ 53) \<le> real_of_int (round_even (z / u))" by simp
  then have "- (2 ^ 53) * u \<le> real_of_int (round_even (z / u)) * u"
    using u by (rule scale_le)
  then show "- (2 powr (real_of_int \<lfloor>log 2 \<bar>z\<bar>\<rfloor> + 1)) \<le> nearest_double z"
    unfolding N e_def [symmetric] B by simp
qed

lemma nearest_double_mono_neg:
  assumes "x \<le> y" and "y \<le> 0"
  shows "nearest_double x \<le> nearest_double y"
proof (cases "x = 0 \<or> y = 0")
  case True
  show ?thesis
  proof (cases "x = 0")
    case True
    with assms have "y = 0" by simp
    with True show ?thesis by simp
  next
    case False
    with assms have "x < 0" by simp
    from nearest_double_neg_bounds(1) [OF this] have "nearest_double x \<le> 0"
      by (smt (verit) powr_gt_zero)
    moreover from False True have "nearest_double y = 0" by (simp add: nearest_double_def)
    ultimately show ?thesis by simp
  qed
next
  case False
  with assms have x: "x < 0" and y: "y < 0" by simp_all
  define ex where "ex = \<lfloor>log 2 \<bar>x\<bar>\<rfloor>"
  define ey where "ey = \<lfloor>log 2 \<bar>y\<bar>\<rfloor>"
  have "\<bar>y\<bar> \<le> \<bar>x\<bar>" using assms x y by simp
  then have "log 2 \<bar>y\<bar> \<le> log 2 \<bar>x\<bar>" using y by simp
  then have le: "ey \<le> ex" unfolding ex_def ey_def by (rule floor_mono)
  show ?thesis
  proof (cases "ex = ey")
    case True
    define u :: real where "u = 2 powr (real_of_int ex - 52)"
    have u: "0 < u" by (simp add: u_def)
    have "nearest_double x = real_of_int (round_even (x / u)) * u"
      using x by (simp add: nearest_double_def Let_def u_def ex_def)
    moreover have "nearest_double y = real_of_int (round_even (y / u)) * u"
      using y True by (simp add: nearest_double_def Let_def u_def ey_def)
    moreover have "x / u \<le> y / u" using assms(1) u by (simp add: divide_right_mono)
    then have "round_even (x / u) \<le> round_even (y / u)" by (rule round_even_mono)
    then have "real_of_int (round_even (x / u)) \<le> real_of_int (round_even (y / u))"
      by (simp only: of_int_le_iff)
    then have "real_of_int (round_even (x / u)) * u \<le> real_of_int (round_even (y / u)) * u"
      using u by (rule scale_le)
    ultimately show ?thesis by simp
  next
    case False
    with le have "real_of_int ey + 1 \<le> real_of_int ex" by linarith
    then have "(2::real) powr (real_of_int ey + 1) \<le> 2 powr real_of_int ex"
      by (simp add: powr_le_cancel_iff)
    moreover have "nearest_double x \<le> - (2 powr real_of_int ex)"
      unfolding ex_def by (rule nearest_double_neg_bounds(1) [OF x])
    moreover have "- (2 powr (real_of_int ey + 1)) \<le> nearest_double y"
      unfolding ey_def by (rule nearest_double_neg_bounds(2) [OF y])
    ultimately show ?thesis by linarith
  qed
qed

lemma log2_nearest_mono:
  assumes "0 < p" and "p \<le> q" and "q \<le> 1"
  shows "log2_nearest p \<le> log2_nearest q"
proof -
  have "log 2 p \<le> log 2 q" using assms by simp
  moreover have "log 2 q \<le> 0" using assms by (simp add: log_def divide_nonpos_pos)
  ultimately show ?thesis unfolding log2_nearest_def by (rule nearest_double_mono_neg)
qed

lemma log2_nearest_one: "log2_nearest 1 = 0"
  by (simp add: log2_nearest_def nearest_double_def)

lemma is_double_pow: "is_double (1 / 2 ^ 10)"
proof -
  have "(1 / 2 ^ 10 :: real) = real_of_int 1 * 2 powr real_of_int (- 10)"
    by (simp add: powr_minus_divide)
  moreover have "\<bar>1 :: int\<bar> < 2 ^ 53 \<and> - 1074 \<le> (- 10 :: int) \<and> (- 10 :: int) \<le> 971" by simp
  ultimately show ?thesis unfolding is_double_def by blast
qed

lemma is_double_succ: "is_double ((2 ^ 52 + 1) / 2 ^ 62)"
proof -
  have "((2 ^ 52 + 1) / 2 ^ 62 :: real) = real_of_int (2 ^ 52 + 1) * 2 powr real_of_int (- 62)"
    by (simp add: powr_minus_divide)
  moreover have "\<bar>2 ^ 52 + 1 :: int\<bar> < 2 ^ 53 \<and> - 1074 \<le> (- 62 :: int) \<and> (- 62 :: int) \<le> 971"
    by simp
  ultimately show ?thesis unfolding is_double_def by blast
qed

subsection \<open>The surprisal of a probability\<close>

text \<open>
  Claim C1, amended. For a probability \<open>p > 0\<close>, \<^verbatim>\<open>calculate_surprisal\<close> returns the negation
  of what \<^verbatim>\<open>math.log2\<close> returns for \<open>p\<close>, and for \<open>p = 0\<close> it returns \<open>+inf\<close>; the surprisal of
  1 is 0, \<^verbatim>\<open>math.log2\<close> being 0 at 1. Where \<^verbatim>\<open>math.log2\<close> is monotone on \<open>(0, 1]\<close>, as a
  correctly rounded one is, a larger probability never has a larger surprisal. It need
  not have a smaller one: the order is not strict on doubles.
\<close>

theorem calculate_surprisal_spec:
  "(\<forall>p. 0 < p \<longrightarrow> calculate_surprisal log2 p = Inr (Fin (- log2 p)))
   \<and> calculate_surprisal log2 0 = Inr PInf
   \<and> (log2 1 = 0 \<longrightarrow> calculate_surprisal log2 1 = Inr (Fin 0))
   \<and> ((\<forall>x y. 0 < x \<and> x \<le> y \<and> y \<le> 1 \<longrightarrow> log2 x \<le> log2 y) \<longrightarrow>
        (\<forall>p q. 0 < p \<and> p < q \<and> q \<le> 1 \<longrightarrow>
           (\<exists>sp sq. calculate_surprisal log2 p = Inr sp \<and> calculate_surprisal log2 q = Inr sq
                    \<and> \<not> float_less sp sq)))"
proof (intro conjI allI impI)
  fix p :: real assume "0 < p"
  then show "calculate_surprisal log2 p = Inr (Fin (- log2 p))"
    by (simp add: calculate_surprisal_def)
next
  show "calculate_surprisal log2 0 = Inr PInf" by (simp add: calculate_surprisal_def)
next
  assume "log2 1 = 0"
  then show "calculate_surprisal log2 1 = Inr (Fin 0)" by (simp add: calculate_surprisal_def)
next
  fix p q :: real
  assume mono: "\<forall>x y. 0 < x \<and> x \<le> y \<and> y \<le> 1 \<longrightarrow> log2 x \<le> log2 y"
    and h: "0 < p \<and> p < q \<and> q \<le> 1"
  then have "log2 p \<le> log2 q" by simp
  with h show "\<exists>sp sq. calculate_surprisal log2 p = Inr sp \<and> calculate_surprisal log2 q = Inr sq
                  \<and> \<not> float_less sp sq"
    by (simp add: calculate_surprisal_def)
qed

theorem calculate_surprisal_spec_witness:
  "log2_nearest 1 = 0
   \<and> calculate_surprisal log2_nearest 1 = Inr (Fin 0)
   \<and> calculate_surprisal log2_nearest 0 = Inr PInf
   \<and> (0::real) < 1 / 2 ^ 10 \<and> (1 / 2 ^ 10 :: real) < 1 / 2 \<and> (1 / 2 :: real) \<le> 1
   \<and> (\<exists>sp sq. calculate_surprisal log2_nearest (1 / 2 ^ 10) = Inr sp
             \<and> calculate_surprisal log2_nearest (1 / 2) = Inr sq \<and> \<not> float_less sp sq)"
proof -
  have one: "log2_nearest 1 = 0" by (rule log2_nearest_one)
  have mono: "\<forall>x y. 0 < x \<and> x \<le> y \<and> y \<le> 1 \<longrightarrow> log2_nearest x \<le> log2_nearest y"
    using log2_nearest_mono by blast
  have h: "(0::real) < 1 / 2 ^ 10 \<and> (1 / 2 ^ 10 :: real) < 1 / 2 \<and> (1 / 2 :: real) \<le> 1"
    by simp
  note spec = calculate_surprisal_spec [of log2_nearest]
  from spec one have a: "calculate_surprisal log2_nearest 1 = Inr (Fin 0)" by blast
  from spec have b: "calculate_surprisal log2_nearest 0 = Inr PInf" by blast
  from spec mono h have c: "\<exists>sp sq. calculate_surprisal log2_nearest (1 / 2 ^ 10) = Inr sp
             \<and> calculate_surprisal log2_nearest (1 / 2) = Inr sq \<and> \<not> float_less sp sq"
    by blast
  from one a b h c show ?thesis by blast
qed

text \<open>
  The double \<open>1 / 2 ^ 10\<close> and the next double, \<open>(2 ^ 52 + 1) / 2 ^ 62\<close>, have the same
  surprisal 10 under a correctly rounded \<^verbatim>\<open>math.log2\<close>: their logarithms differ by less
  than half the distance between 10 and the double below it.
\<close>

theorem calculate_surprisal_counterexample:
  "is_double (1 / 2 ^ 10) \<and> is_double ((2 ^ 52 + 1) / 2 ^ 62)
   \<and> (0::real) < 1 / 2 ^ 10 \<and> (1 / 2 ^ 10 :: real) < (2 ^ 52 + 1) / 2 ^ 62
   \<and> ((2 ^ 52 + 1) / 2 ^ 62 :: real) \<le> 1
   \<and> calculate_surprisal log2_nearest (1 / 2 ^ 10) = Inr (Fin 10)
   \<and> calculate_surprisal log2_nearest ((2 ^ 52 + 1) / 2 ^ 62) = Inr (Fin 10)
   \<and> \<not> float_less (Fin 10) (Fin 10)"
proof -
  have "calculate_surprisal log2_nearest (1 / 2 ^ 10) = Inr (Fin 10)"
    unfolding calculate_surprisal_def log2_nearest_pow by simp
  moreover have "calculate_surprisal log2_nearest ((2 ^ 52 + 1) / 2 ^ 62) = Inr (Fin 10)"
    unfolding calculate_surprisal_def log2_nearest_succ by simp
  moreover have "(0::real) < 1 / 2 ^ 10 \<and> (1 / 2 ^ 10 :: real) < (2 ^ 52 + 1) / 2 ^ 62
   \<and> ((2 ^ 52 + 1) / 2 ^ 62 :: real) \<le> 1" by simp
  ultimately show ?thesis using is_double_pow is_double_succ by simp
qed

section \<open>The mention scanner\<close>

lemma starts_with_iff: "starts_with needle hay \<longleftrightarrow> (\<exists>ss. hay = needle @ ss)"
  by (induction needle hay rule: starts_with.induct) auto

lemma str_contains_iff: "str_contains needle hay \<longleftrightarrow> (\<exists>ps ss. hay = ps @ needle @ ss)"
proof (induction hay)
  case Nil
  then show ?case by auto
next
  case (Cons h hs)
  show ?case
  proof
    assume "str_contains needle (h # hs)"
    then consider "starts_with needle (h # hs)" | "str_contains needle hs" by auto
    then show "\<exists>ps ss. h # hs = ps @ needle @ ss"
    proof cases
      case 1
      then obtain ss where "h # hs = needle @ ss" using starts_with_iff by blast
      then have "h # hs = [] @ needle @ ss" by simp
      then show ?thesis by blast
    next
      case 2
      with Cons.IH obtain ps ss where "hs = ps @ needle @ ss" by blast
      then have "h # hs = (h # ps) @ needle @ ss" by simp
      then show ?thesis by blast
    qed
  next
    assume "\<exists>ps ss. h # hs = ps @ needle @ ss"
    then obtain ps ss where eq: "h # hs = ps @ needle @ ss" by blast
    show "str_contains needle (h # hs)"
    proof (cases ps)
      case Nil
      with eq have "starts_with needle (h # hs)" using starts_with_iff by auto
      then show ?thesis by simp
    next
      case (Cons p ps')
      with eq have "hs = ps' @ needle @ ss" by simp
      with Cons.IH have "str_contains needle hs" by blast
      then show ?thesis by simp
    qed
  qed
qed

lemma fold_collect:
  "fold (\<lambda>f detected. if P f then detected @ [f] else detected) fs acc = acc @ filter P fs"
  by (induction fs arbitrary: acc) auto

lemma detect_filter:
  "detect_formulae_in_mention lower m fp =
     (case map_of fp (character m) of
        None \<Rightarrow> []
      | Some fs \<Rightarrow> filter (\<lambda>f. str_contains (pattern f) (lower (line m))) fs)"
  by (simp add: detect_formulae_in_mention_def fold_collect split: option.split)

lemma update_values:
  "(\<forall>(k, v) \<in> set al. P v) \<Longrightarrow> P v' \<Longrightarrow> \<forall>(k, v) \<in> set (AList.update k' v' al). P v"
  by (induction al) auto

lemma fold_update_values:
  "(\<forall>(k, v) \<in> set acc. P v) \<Longrightarrow> (\<forall>x \<in> set xs. P (g x))
     \<Longrightarrow> \<forall>(k, v) \<in> set (fold (\<lambda>x al. AList.update (kf x) (g x) al) xs acc). P v"
proof (induction xs arbitrary: acc)
  case Nil
  then show ?case by simp
next
  case (Cons x xs)
  have "\<forall>(k, v) \<in> set (AList.update (kf x) (g x) acc). P v"
    using Cons.prems by (intro update_values) auto
  then show ?case using Cons.prems by (simp add: Cons.IH)
qed

lemma character_patterns_lower:
  "f \<in> set (character_patterns lower by_type) \<Longrightarrow> pattern f = lower (original f)"
  by (auto simp: character_patterns_def)

lemma build_formula_patterns_lower:
  assumes "map_of (build_formula_patterns lower db) c = Some fs" and "f \<in> set fs"
  shows "pattern f = lower (original f)"
proof -
  let ?P = "\<lambda>fs. \<forall>f \<in> set fs. pattern f = lower (original f)"
  have "\<forall>(k, v) \<in> set (fold (\<lambda>x al. AList.update (fst x) (character_patterns lower (snd x)) al) db []). ?P v"
    by (rule fold_update_values) (auto simp: character_patterns_lower)
  moreover have "build_formula_patterns lower db
      = fold (\<lambda>x al. AList.update (fst x) (character_patterns lower (snd x)) al) db []"
    by (simp add: build_formula_patterns_def case_prod_unfold)
  ultimately have "\<forall>(k, v) \<in> set (build_formula_patterns lower db). ?P v"
    by simp
  moreover have "(c, fs) \<in> set (build_formula_patterns lower db)"
    using assms(1) by (rule map_of_SomeD)
  ultimately show ?thesis using assms(2) by auto
qed

text \<open>
  Claim C9. \<^verbatim>\<open>detect_formulae_in_mention\<close> returns, in index order, exactly the records of
  the mention's character whose pattern occurs somewhere inside the lowercased line (plain
  containment: any prefix and suffix may surround it, word boundaries play no part), and
  the empty list when the character has no entry in the index. In an index built by
  \<^verbatim>\<open>build_formula_patterns\<close> the pattern of a record is its lowercased original text.
\<close>

theorem detect_formulae_in_mention_spec:
  "detect_formulae_in_mention lower m fp =
     (case map_of fp (character m) of
        None \<Rightarrow> []
      | Some fs \<Rightarrow> filter (\<lambda>f. \<exists>ps ss. lower (line m) = ps @ pattern f @ ss) fs)
   \<and> (map_of fp (character m) = None \<longrightarrow> detect_formulae_in_mention lower m fp = [])
   \<and> detect_formulae_in_mention lower m (build_formula_patterns lower db) =
     (case map_of (build_formula_patterns lower db) (character m) of
        None \<Rightarrow> []
      | Some fs \<Rightarrow> filter (\<lambda>f. \<exists>ps ss. lower (line m) = ps @ lower (original f) @ ss) fs)"
proof (intro conjI impI)
  show "detect_formulae_in_mention lower m fp =
     (case map_of fp (character m) of
        None \<Rightarrow> []
      | Some fs \<Rightarrow> filter (\<lambda>f. \<exists>ps ss. lower (line m) = ps @ pattern f @ ss) fs)"
    by (simp add: detect_filter str_contains_iff split: option.split)
next
  assume "map_of fp (character m) = None"
  then show "detect_formulae_in_mention lower m fp = []" by (simp add: detect_filter)
next
  show "detect_formulae_in_mention lower m (build_formula_patterns lower db) =
     (case map_of (build_formula_patterns lower db) (character m) of
        None \<Rightarrow> []
      | Some fs \<Rightarrow> filter (\<lambda>f. \<exists>ps ss. lower (line m) = ps @ lower (original f) @ ss) fs)"
  proof (cases "map_of (build_formula_patterns lower db) (character m)")
    case None
    then show ?thesis by (simp add: detect_filter)
  next
    case (Some fs)
    have "filter (\<lambda>f. str_contains (pattern f) (lower (line m))) fs
        = filter (\<lambda>f. \<exists>ps ss. lower (line m) = ps @ lower (original f) @ ss) fs"
      by (rule filter_cong) (auto simp: str_contains_iff build_formula_patterns_lower [OF Some])
    with Some show ?thesis by (simp add: detect_filter)
  qed
qed

text \<open>
  On the line \<open>Di=os Zeu/s\<close> the pattern \<open>OS\<close> of the database is found inside the
  word \<open>di=os\<close>; a mention of a character without entry yields nothing.
\<close>

lemma zeus_index: "build_formula_patterns lower_ascii zeus_db =
   [(''Zeus'', [\<lparr>pattern = ''os'', original = ''OS'', ftype = ''epithet'', position = ''before'',
                  frequency = 7, semantic = ''''\<rparr>,
                \<lparr>pattern = ''path/r'', original = ''path/r'', ftype = ''epithet'', position = ''after'',
                  frequency = 4, semantic = ''kinship''\<rparr>])]"
  by (simp add: build_formula_patterns_def zeus_db_def character_patterns_def lower_ascii_def)

theorem detect_formulae_in_mention_spec_witness:
  "map_of (build_formula_patterns lower_ascii zeus_db) (character hera_line) = None
   \<and> detect_formulae_in_mention lower_ascii hera_line (build_formula_patterns lower_ascii zeus_db) = []
   \<and> detect_formulae_in_mention lower_ascii zeus_line (build_formula_patterns lower_ascii zeus_db) =
       [\<lparr>pattern = ''os'', original = ''OS'', ftype = ''epithet'', position = ''before'',
         frequency = 7, semantic = ''''\<rparr>]"
proof -
  have none: "map_of (build_formula_patterns lower_ascii zeus_db) (character hera_line) = None"
    by (simp add: zeus_index hera_line_def)
  have l: "lower_ascii (line zeus_line) = ''di=os zeu/s''"
    by (simp add: zeus_line_def lower_ascii_def)
  have a: "\<exists>ps ss. ''di=os zeu/s'' = ps @ ''os'' @ ss"
  proof -
    have "''di=os zeu/s'' = ''di='' @ ''os'' @ '' zeu/s''" by simp
    then show ?thesis by blast
  qed
  have b: "\<not> (\<exists>ps ss. ''di=os zeu/s'' = ps @ ''path/r'' @ ss)"
    using str_contains_iff [of "''path/r''" "''di=os zeu/s''"] by simp
  from detect_formulae_in_mention_spec [of lower_ascii hera_line "build_formula_patterns lower_ascii zeus_db" zeus_db] none
  have e1: "detect_formulae_in_mention lower_ascii hera_line (build_formula_patterns lower_ascii zeus_db) = []"
    by blast
  from detect_formulae_in_mention_spec [of lower_ascii zeus_line "build_formula_patterns lower_ascii zeus_db" zeus_db]
  have "detect_formulae_in_mention lower_ascii zeus_line (build_formula_patterns lower_ascii zeus_db) =
     (case map_of (build_formula_patterns lower_ascii zeus_db) (character zeus_line) of
        None \<Rightarrow> []
      | Some fs \<Rightarrow> filter (\<lambda>f. \<exists>ps ss. lower_ascii (line zeus_line) = ps @ pattern f @ ss) fs)"
    by blast
  then have e2: "detect_formulae_in_mention lower_ascii zeus_line (build_formula_patterns lower_ascii zeus_db) =
       [\<lparr>pattern = ''os'', original = ''OS'', ftype = ''epithet'', position = ''before'',
         frequency = 7, semantic = ''''\<rparr>]"
    using a b by (simp add: zeus_index l) (simp add: zeus_line_def)
  from none e1 e2 show ?thesis by blast
qed

section \<open>The expectation model\<close>

subsection \<open>Sums of the counter\<close>

lemma counter_incr_sum:
  "sum_list (map snd (counter_incr k cnt)) = sum_list (map snd cnt) + 1"
  by (induction cnt) auto

lemma fold_incr_sum:
  "sum_list (map snd (fold (\<lambda>f counts. counter_incr (pattern f) counts) fs cnt))
     = sum_list (map snd cnt) + int (length fs)"
  by (induction fs arbitrary: cnt) (simp_all add: counter_incr_sum)

lemma fold_mentions_sum:
  "sum_list (map snd (fold (\<lambda>m counts. fold (\<lambda>f counts. counter_incr (pattern f) counts)
                                         (D m) counts) ms cnt))
     = sum_list (map snd cnt) + (\<Sum>m\<leftarrow>ms. int (length (D m)))"
  by (induction ms arbitrary: cnt) (simp_all add: fold_incr_sum)

lemma count_formulae_sum:
  "sum_list (map snd (count_formulae lower fp ms))
     = (\<Sum>m\<leftarrow>ms. int (length (detect_formulae_in_mention lower m fp)))"
  by (simp add: count_formulae_def fold_mentions_sum)

lemma fold_update_lookup:
  "map_of (fold (\<lambda>c al. AList.update c (g c) al) cs acc) k
     = (if k \<in> set cs then Some (g k) else map_of acc k)"
  by (induction cs arbitrary: acc) (auto simp: update_conv')

lemma expectations_lookup:
  "map_of (calculate_formula_expectations lower ms fp) c
     = (if c \<in> fst ` set fp then Some (character_profile lower ms fp c) else None)"
  by (simp add: calculate_formula_expectations_def fold_update_lookup)

lemma profile_total:
  "total_mentions (character_profile lower ms fp c)
     = int (length (filter (\<lambda>m. character m = c) ms))"
  by (simp add: character_profile_def Let_def)

lemma profile_counts_sum:
  "sum_list (map snd (formula_counts (character_profile lower ms fp c)))
     = (\<Sum>m\<leftarrow>filter (\<lambda>m. character m = c) ms.
          int (length (detect_formulae_in_mention lower m fp)))"
  by (simp add: character_profile_def Let_def count_formulae_sum)

lemma profile_probs:
  "0 < total_mentions (character_profile lower ms fp c) \<Longrightarrow>
   formula_probabilities (character_profile lower ms fp c)
     = map (\<lambda>(p, n). (p, real_of_int n
                            / real_of_int (total_mentions (character_profile lower ms fp c))))
           (formula_counts (character_profile lower ms fp c))"
  by (simp add: character_profile_def Let_def)

lemma profile_no_mentions:
  "\<not> 0 < total_mentions (character_profile lower ms fp c) \<Longrightarrow>
   formula_counts (character_profile lower ms fp c) = []
   \<and> formula_probabilities (character_profile lower ms fp c) = []"
  by (simp add: character_profile_def Let_def count_formulae_def)

lemma sum_list_length_bound:
  "(\<forall>m \<in> set ms. length (D m) \<le> 1) \<Longrightarrow> (\<Sum>m\<leftarrow>ms. int (length (D m))) \<le> int (length ms)"
proof (induction ms)
  case Nil
  then show ?case by simp
next
  case (Cons m ms)
  then have "int (length (D m)) \<le> 1" and "(\<Sum>m\<leftarrow>ms. int (length (D m))) \<le> int (length ms)"
    by simp_all
  then show ?case by simp
qed

lemma counter_incr_positive:
  "\<forall>(k, v) \<in> set cnt. 1 \<le> v \<Longrightarrow> \<forall>(k, v) \<in> set (counter_incr k' cnt). 1 \<le> v"
  by (induction cnt) (auto split: if_splits)

lemma fold_incr_positive:
  "\<forall>(k, v) \<in> set cnt. 1 \<le> v \<Longrightarrow>
   \<forall>(k, v) \<in> set (fold (\<lambda>f counts. counter_incr (pattern f) counts) fs cnt). 1 \<le> v"
proof (induction fs arbitrary: cnt)
  case Nil
  then show ?case by simp
next
  case (Cons f fs)
  from counter_incr_positive [OF Cons.prems]
  have "\<forall>(k, v) \<in> set (counter_incr (pattern f) cnt). 1 \<le> v" .
  then show ?case by (simp add: Cons.IH)
qed

lemma fold_mentions_positive:
  "\<forall>(k, v) \<in> set cnt. 1 \<le> v \<Longrightarrow>
   \<forall>(k, v) \<in> set (fold (\<lambda>m counts. fold (\<lambda>f counts. counter_incr (pattern f) counts)
                                         (D m) counts) ms cnt). 1 \<le> v"
proof (induction ms arbitrary: cnt)
  case Nil
  then show ?case by simp
next
  case (Cons m ms)
  from fold_incr_positive [OF Cons.prems]
  have "\<forall>(k, v) \<in> set (fold (\<lambda>f counts. counter_incr (pattern f) counts) (D m) cnt). 1 \<le> v" .
  then show ?case by (simp add: Cons.IH)
qed

lemma profile_counts_positive:
  "\<forall>(k, v) \<in> set (formula_counts (character_profile lower ms fp c)). 1 \<le> v"
  using fold_mentions_positive [of "[]" "\<lambda>m. detect_formulae_in_mention lower m fp"
          "filter (\<lambda>m. character m = c) ms"]
  by (simp add: character_profile_def Let_def count_formulae_def)

lemma profile_keys:
  "map fst (formula_probabilities (character_profile lower ms fp c))
     = map fst (formula_counts (character_profile lower ms fp c))"
  by (simp add: character_profile_def Let_def case_prod_unfold comp_def)

lemma member_le_sum_list_int:
  "\<forall>v \<in> set vs. 0 \<le> v \<Longrightarrow> x \<in> set vs \<Longrightarrow> x \<le> sum_list (vs :: int list)"
proof (induction vs)
  case Nil
  then show ?case by simp
next
  case (Cons v vs)
  then have "0 \<le> v" and "0 \<le> sum_list vs" by (simp_all add: sum_list_nonneg)
  with Cons show ?case by auto
qed

subsection \<open>Single entries of the counter\<close>

lemma dict_get_counter_incr:
  "dict_get (counter_incr k cnt) k' 0 = dict_get cnt k' 0 + (if k' = k then 1 else 0)"
  by (induction cnt) (auto simp: dict_get_def)

lemma fold_incr_get:
  "dict_get (fold (\<lambda>f counts. counter_incr (pattern f) counts) fs cnt) p 0
     = dict_get cnt p 0 + int (length (filter (\<lambda>f. pattern f = p) fs))"
  by (induction fs arbitrary: cnt) (auto simp: dict_get_counter_incr)

lemma fold_mentions_get:
  "dict_get (fold (\<lambda>m counts. fold (\<lambda>f counts. counter_incr (pattern f) counts)
                                  (D m) counts) ms cnt) p 0
     = dict_get cnt p 0 + (\<Sum>m\<leftarrow>ms. int (length (filter (\<lambda>f. pattern f = p) (D m))))"
  by (induction ms arbitrary: cnt) (simp_all add: fold_incr_get)

lemma count_formulae_get:
  "dict_get (count_formulae lower fp ms) p 0
     = (\<Sum>m\<leftarrow>ms. int (length (filter (\<lambda>f. pattern f = p)
                                     (detect_formulae_in_mention lower m fp))))"
  by (simp add: count_formulae_def fold_mentions_get) (simp add: dict_get_def)

lemma probs_get:
  "dict_get (map (\<lambda>(p, n). (p, real_of_int n / t)) counts) p 0
     = real_of_int (dict_get counts p 0) / t"
  by (induction counts) (auto simp: dict_get_def)

lemma profile_prob_get:
  "dict_get (formula_probabilities (character_profile lower ms fp c)) p 0
     = (if 0 < total_mentions (character_profile lower ms fp c)
        then real_of_int (dict_get (formula_counts (character_profile lower ms fp c)) p 0)
               / real_of_int (total_mentions (character_profile lower ms fp c))
        else 0)"
proof (cases "0 < total_mentions (character_profile lower ms fp c)")
  case True
  then show ?thesis by (simp only: profile_probs probs_get if_True)
next
  case False
  then show ?thesis using profile_no_mentions [OF False] by (simp add: dict_get_def)
qed

lemma distinct_pattern_matches:
  "distinct (map pattern fs) \<Longrightarrow>
   int (length (filter (\<lambda>f. pattern f = p) (filter Q fs)))
     = (if \<exists>f \<in> set (filter Q fs). pattern f = p then 1 else 0)"
proof (induction fs)
  case Nil
  then show ?case by simp
next
  case (Cons f fs)
  then have IH: "int (length (filter (\<lambda>f. pattern f = p) (filter Q fs)))
     = (if \<exists>f \<in> set (filter Q fs). pattern f = p then 1 else 0)"
    and nf: "pattern f \<notin> pattern ` set fs" by simp_all
  show ?case
  proof (cases "Q f \<and> pattern f = p")
    case True
    with nf have "\<not> (\<exists>g \<in> set (filter Q fs). pattern g = p)"
      by (metis filter_is_subset image_eqI subsetD)
    with IH True show ?thesis by simp
  next
    case False
    have a: "filter (\<lambda>f. pattern f = p) (filter Q (f # fs))
               = filter (\<lambda>f. pattern f = p) (filter Q fs)"
      using False by auto
    have b: "(\<exists>g \<in> set (filter Q (f # fs)). pattern g = p)
               = (\<exists>g \<in> set (filter Q fs). pattern g = p)"
      using False by auto
    show ?thesis unfolding a b by (rule IH)
  qed
qed

lemma sum_list_indicator:
  "(\<Sum>m\<leftarrow>ms. (if A m then 1 else 0 :: int)) = int (length (filter A ms))"
  by (induction ms) simp_all

text \<open>
  When the patterns of a character are pairwise distinct, the probability stored for a
  pattern (read with default 0, as \<^verbatim>\<open>analyze_mention_surprisal\<close> reads it) is the number
  of the character's mentions in which it is detected, divided by the number of the
  character's mentions, and 0 when the character has no mention.
\<close>

lemma formula_probability_distinct:
  assumes fs: "map_of fp c = Some fs" and dist: "distinct (map pattern fs)"
  shows "dict_get (formula_probabilities (character_profile lower ms fp c)) p 0
     = (if filter (\<lambda>m. character m = c) ms = [] then 0
        else real (length (filter (\<lambda>m. \<exists>f \<in> set (detect_formulae_in_mention lower m fp).
                                          pattern f = p)
                            (filter (\<lambda>m. character m = c) ms)))
               / real (length (filter (\<lambda>m. character m = c) ms)))"
proof -
  let ?cm = "filter (\<lambda>m. character m = c) ms"
  let ?A = "\<lambda>m. \<exists>f \<in> set (detect_formulae_in_mention lower m fp). pattern f = p"
  have one: "int (length (filter (\<lambda>f. pattern f = p) (detect_formulae_in_mention lower m fp)))
           = (if ?A m then 1 else 0)" if "m \<in> set ?cm" for m
  proof -
    from that have "character m = c" by simp
    with fs have "detect_formulae_in_mention lower m fp
        = filter (\<lambda>f. str_contains (pattern f) (lower (line m))) fs"
      by (simp add: detect_filter)
    then show ?thesis using distinct_pattern_matches [OF dist] by simp
  qed
  have "dict_get (formula_counts (character_profile lower ms fp c)) p 0
      = (\<Sum>m\<leftarrow>?cm. int (length (filter (\<lambda>f. pattern f = p)
                                     (detect_formulae_in_mention lower m fp))))"
    by (simp add: character_profile_def Let_def count_formulae_get)
  also have "\<dots> = (\<Sum>m\<leftarrow>?cm. (if ?A m then 1 else 0))"
    using one by (intro arg_cong [where f = sum_list] map_cong refl) blast
  also have "\<dots> = int (length (filter ?A ?cm))" by (rule sum_list_indicator)
  finally have k: "dict_get (formula_counts (character_profile lower ms fp c)) p 0
      = int (length (filter ?A ?cm))" .
  show ?thesis
    unfolding profile_prob_get k profile_total by simp
qed

subsection \<open>Evaluation on the concrete inputs\<close>

lemma lower_lines:
  "lower_ascii (line zeus1) = ''dios zeus''"
  "lower_ascii (line zeus2) = ''zeus dios''"
  "lower_ascii (line zeus3) = ''zeus''"
  "lower_ascii (line hera4) = ''hera''"
  by (simp_all add: zeus1_def zeus2_def zeus3_def hera4_def lower_ascii_def)

lemma detect_zeus1:
  "detect_formulae_in_mention lower_ascii zeus1 dios_patterns = snd (hd dios_patterns)"
  by (simp add: detect_formulae_in_mention_def lower_lines) (simp add: zeus1_def dios_patterns_def)

lemma detect_zeus2:
  "detect_formulae_in_mention lower_ascii zeus2 dios_patterns = snd (hd dios_patterns)"
  by (simp add: detect_formulae_in_mention_def lower_lines) (simp add: zeus2_def dios_patterns_def)

lemma detect_zeus3:
  "detect_formulae_in_mention lower_ascii zeus3 dios_patterns = []"
  by (simp add: detect_formulae_in_mention_def lower_lines) (simp add: zeus3_def dios_patterns_def)

lemma detect_kronos5:
  "detect_formulae_in_mention lower_ascii kronos5 dios_patterns = [snd (hd dios_patterns) ! 1]"
proof -
  have "lower_ascii (line kronos5) = ''kronos zeus''"
    by (simp add: kronos5_def lower_ascii_def)
  then show ?thesis
    by (simp add: detect_formulae_in_mention_def) (simp add: kronos5_def dios_patterns_def)
qed

lemma detect_hera4:
  "detect_formulae_in_mention lower_ascii hera4 dios_patterns = []"
  by (simp add: detect_formulae_in_mention_def hera4_def dios_patterns_def)

lemma zeus_profile:
  "character_profile lower_ascii ex_mentions dios_patterns ''Zeus'' =
     \<lparr>total_mentions = 3, formula_counts = [(''dios'', 2), (''os'', 2)],
      formula_probabilities = [(''dios'', 2 / 3), (''os'', 2 / 3)]\<rparr>"
proof -
  have f: "filter (\<lambda>m. character m = ''Zeus'') ex_mentions = [zeus1, zeus2, zeus3]"
    by (simp add: ex_mentions_def zeus1_def zeus2_def zeus3_def hera4_def)
  have c: "count_formulae lower_ascii dios_patterns [zeus1, zeus2, zeus3]
             = [(''dios'', 2), (''os'', 2)]"
    by (simp add: count_formulae_def detect_zeus1 detect_zeus2 detect_zeus3)
       (simp add: dios_patterns_def)
  show ?thesis by (simp add: character_profile_def f c)
qed

lemma ex_expectations:
  "calculate_formula_expectations lower_ascii ex_mentions dios_patterns =
     [(''Zeus'', \<lparr>total_mentions = 3, formula_counts = [(''dios'', 2), (''os'', 2)],
                  formula_probabilities = [(''dios'', 2 / 3), (''os'', 2 / 3)]\<rparr>)]"
proof -
  have "map fst dios_patterns = [''Zeus'']" by (simp add: dios_patterns_def)
  then show ?thesis by (simp add: calculate_formula_expectations_def zeus_profile)
qed

lemma dup_index:
  "build_formula_patterns lower_ascii dup_db =
     [(''Zeus'', [\<lparr>pattern = ''dios'', original = ''Dios'', ftype = ''epithet'',
                   position = ''before'', frequency = 5, semantic = ''divine''\<rparr>,
                 \<lparr>pattern = ''dios'', original = ''Dios'', ftype = ''epithet'',
                   position = ''after'', frequency = 5, semantic = ''divine''\<rparr>])]"
  by (simp add: build_formula_patterns_def dup_db_def character_patterns_def lower_ascii_def)

text \<open>
  Claim C2 says that a pattern detected in \<open>k\<close> of the \<open>N\<close> mentions of a character has
  probability \<open>k / N\<close>. The counter is keyed by pattern text but incremented once for each
  detected record, so two records with the same pattern (here the phrase \<open>Dios\<close> confirmed
  both before and after the name) count one mention twice: with \<open>N = 1\<close> and \<open>k = 1\<close> the
  stored probability is 2.
\<close>

theorem duplicate_pattern_probability:
  "calculate_formula_expectations lower_ascii dup_mentions (build_formula_patterns lower_ascii dup_db)
     = [(''Zeus'', \<lparr>total_mentions = 1, formula_counts = [(''dios'', 2)],
                    formula_probabilities = [(''dios'', 2)]\<rparr>)]"
proof -
  have d: "detect_formulae_in_mention lower_ascii zeus1 (build_formula_patterns lower_ascii dup_db)
             = snd (hd (build_formula_patterns lower_ascii dup_db))"
    by (simp add: detect_formulae_in_mention_def lower_lines) (simp add: zeus1_def dup_index)
  have f: "filter (\<lambda>m. character m = ''Zeus'') dup_mentions = dup_mentions"
    by (simp add: dup_mentions_def zeus1_def)
  have c: "count_formulae lower_ascii (build_formula_patterns lower_ascii dup_db) dup_mentions
             = [(''dios'', 2)]"
    by (simp add: count_formulae_def dup_mentions_def d) (simp add: dup_index)
  have p: "character_profile lower_ascii dup_mentions (build_formula_patterns lower_ascii dup_db) ''Zeus''
     = \<lparr>total_mentions = 1, formula_counts = [(''dios'', 2)],
        formula_probabilities = [(''dios'', 2)]\<rparr>"
    by (simp add: character_profile_def f c) (simp add: dup_mentions_def)
  have "map fst (build_formula_patterns lower_ascii dup_db) = [''Zeus'']" by (simp add: dup_index)
  then show ?thesis by (simp add: calculate_formula_expectations_def p)
qed

text \<open>
  Claim C6, amended. When no mention of a character matches more than one record of the
  index, the probabilities of the character are those of the patterns of its occurrence
  counts, each count lies between 1 and the number of the character's mentions, and the
  counts sum to at most that number.
\<close>

theorem formula_counts_bounded:
  assumes "map_of (calculate_formula_expectations lower ms fp) c = Some prof"
    and "\<forall>m \<in> set ms. character m = c \<longrightarrow>
           length (detect_formulae_in_mention lower m fp) \<le> 1"
  shows "map fst (formula_probabilities prof) = map fst (formula_counts prof)
       \<and> sum_list (map snd (formula_counts prof)) \<le> total_mentions prof
       \<and> (\<forall>(k, n) \<in> set (formula_counts prof). 1 \<le> n \<and> n \<le> total_mentions prof)"
proof -
  let ?cm = "filter (\<lambda>m. character m = c) ms"
  let ?S = "\<Sum>m\<leftarrow>?cm. int (length (detect_formulae_in_mention lower m fp))"
  from assms(1) have prof: "prof = character_profile lower ms fp c"
    by (simp add: expectations_lookup split: if_splits)
  have keys: "map fst (formula_probabilities prof) = map fst (formula_counts prof)"
    unfolding prof by (rule profile_keys)
  from assms(2) have "\<forall>m \<in> set ?cm. length (detect_formulae_in_mention lower m fp) \<le> 1"
    by simp
  then have "?S \<le> int (length ?cm)" by (rule sum_list_length_bound)
  then have sum: "sum_list (map snd (formula_counts prof)) \<le> total_mentions prof"
    unfolding prof by (simp only: profile_counts_sum profile_total)
  have pos: "\<forall>(k, v) \<in> set (formula_counts prof). 1 \<le> v"
    unfolding prof by (rule profile_counts_positive)
  have each: "1 \<le> n \<and> n \<le> total_mentions prof" if "(k, n) \<in> set (formula_counts prof)" for k n
  proof -
    from that pos have one: "1 \<le> n" by auto
    from pos have "\<forall>v \<in> set (map snd (formula_counts prof)). 0 \<le> v" by auto
    moreover from that have "n \<in> set (map snd (formula_counts prof))" by force
    ultimately have "n \<le> sum_list (map snd (formula_counts prof))"
      by (rule member_le_sum_list_int)
    with sum one show ?thesis by simp
  qed
  from keys sum each show ?thesis by auto
qed

text \<open>
  Two patterns found in the same mentions: the probabilities are 2/3 and 2/3.
\<close>

theorem formula_probabilities_sum_counterexample:
  "map_of (calculate_formula_expectations lower_ascii ex_mentions dios_patterns) ''Zeus''
     = Some (character_profile lower_ascii ex_mentions dios_patterns ''Zeus'')
   \<and> \<not> sum_list (map snd (formula_probabilities
           (character_profile lower_ascii ex_mentions dios_patterns ''Zeus''))) \<le> 1"
  by (simp add: ex_expectations zeus_profile)

theorem formula_counts_bounded_witness:
  "map_of (calculate_formula_expectations lower_ascii single_mentions dios_patterns) ''Zeus''
     = Some \<lparr>total_mentions = 2, formula_counts = [(''os'', 1)],
             formula_probabilities = [(''os'', 1 / 2)]\<rparr>
   \<and> length (detect_formulae_in_mention lower_ascii kronos5 dios_patterns) \<le> 1
   \<and> length (detect_formulae_in_mention lower_ascii hera4 dios_patterns) \<le> 1
   \<and> length (detect_formulae_in_mention lower_ascii zeus3 dios_patterns) \<le> 1
   \<and> sum_list (map snd (formula_counts \<lparr>total_mentions = 2, formula_counts = [(''os'', 1)],
             formula_probabilities = [(''os'', 1 / 2)]\<rparr>))
       \<le> total_mentions \<lparr>total_mentions = 2, formula_counts = [(''os'', 1)],
             formula_probabilities = [(''os'', 1 / 2)]\<rparr>"
proof -
  let ?prof = "\<lparr>total_mentions = 2, formula_counts = [(''os'', 1)],
             formula_probabilities = [(''os'', 1 / 2)]\<rparr>"
  have f: "filter (\<lambda>m. character m = ''Zeus'') single_mentions = [kronos5, zeus3]"
    by (simp add: single_mentions_def kronos5_def hera4_def zeus3_def)
  have c: "count_formulae lower_ascii dios_patterns [kronos5, zeus3] = [(''os'', 1)]"
    by (simp add: count_formulae_def detect_kronos5 detect_zeus3) (simp add: dios_patterns_def)
  have "map fst dios_patterns = [''Zeus'']" by (simp add: dios_patterns_def)
  then have m: "map_of (calculate_formula_expectations lower_ascii single_mentions
                  dios_patterns) ''Zeus'' = Some ?prof"
    by (simp add: calculate_formula_expectations_def character_profile_def f c)
  have d: "\<forall>m \<in> set single_mentions. character m = ''Zeus'' \<longrightarrow>
               length (detect_formulae_in_mention lower_ascii m dios_patterns) \<le> 1"
    by (simp add: single_mentions_def detect_kronos5 detect_hera4 detect_zeus3)
  from formula_counts_bounded [OF m d]
  have s: "sum_list (map snd (formula_counts ?prof)) \<le> total_mentions ?prof" by blast
  have l: "length (detect_formulae_in_mention lower_ascii kronos5 dios_patterns) \<le> 1
   \<and> length (detect_formulae_in_mention lower_ascii hera4 dios_patterns) \<le> 1
   \<and> length (detect_formulae_in_mention lower_ascii zeus3 dios_patterns) \<le> 1"
    by (simp add: detect_kronos5 detect_hera4 detect_zeus3)
  from m l s show ?thesis by blast
qed

section \<open>The surprisal scorer on a mention\<close>

lemma guarded_surprisal_eq:
  "guarded_surprisal log2 p = Inr (if 0 < p then Fin (- log2 p) else PInf)"
  by (simp add: guarded_surprisal_def calculate_surprisal_def)

lemma max_from_first:
  "\<exists>pre suf. best # xs = pre @ max_from key best xs # suf
     \<and> (\<forall>x \<in> set pre. key x < key (max_from key best xs))
     \<and> (\<forall>x \<in> set suf. key x \<le> key (max_from key best xs))"
proof (induction xs arbitrary: best)
  case Nil
  have "[best] = [] @ max_from key best [] # []" by simp
  then show ?case by fastforce
next
  case (Cons x xs)
  show ?case
  proof (cases "key best < key x")
    case True
    let ?r = "max_from key x xs"
    from Cons.IH [of x] obtain pre suf where
      eq: "x # xs = pre @ ?r # suf" and
      lt: "\<forall>y \<in> set pre. key y < key ?r" and le: "\<forall>y \<in> set suf. key y \<le> key ?r"
      by blast
    have "x \<in> set (pre @ ?r # suf)" using eq by (metis list.set_intros(1))
    then have "key x \<le> key ?r" using lt le by auto
    with True have "key best < key ?r" by simp
    moreover have "best # x # xs = (best # pre) @ ?r # suf" using eq by simp
    moreover have "max_from key best (x # xs) = ?r" using True by simp
    ultimately show ?thesis using lt le
      by (metis set_ConsD)
  next
    case False
    let ?r = "max_from key best xs"
    have r: "max_from key best (x # xs) = ?r" using False by simp
    from Cons.IH [of best] obtain pre suf where
      eq: "best # xs = pre @ ?r # suf" and
      lt: "\<forall>y \<in> set pre. key y < key ?r" and le: "\<forall>y \<in> set suf. key y \<le> key ?r"
      by blast
    show ?thesis
    proof (cases pre)
      case Nil
      have "best # xs = ?r # suf" using eq unfolding Nil by (simp only: append_Nil)
      then have b: "best = ?r" and s: "suf = xs" by (metis list.inject)+
      have "best # x # xs = [] @ ?r # (x # suf)" using b s by simp
      moreover have "\<forall>y \<in> set (x # suf). key y \<le> key ?r" using le False b by auto
      ultimately show ?thesis unfolding r by (metis empty_iff empty_set)
    next
      case (Cons p pre')
      have "best # xs = p # (pre' @ ?r # suf)" using eq unfolding Cons by (simp only: append_Cons)
      then have b: "best = p" and s: "xs = pre' @ ?r # suf" by (metis list.inject)+
      have "key best < key ?r" using lt Cons b by simp
      with False have "key x < key ?r" by simp
      then have "\<forall>y \<in> set (best # x # pre'). key y < key ?r" using lt Cons b by auto
      moreover have "best # x # xs = (best # x # pre') @ ?r # suf" using s by simp
      ultimately show ?thesis unfolding r using le by blast
    qed
  qed
qed

lemma analyze_no_profile:
  "map_of ex (character m) = None \<Longrightarrow> analyze_mention_surprisal log2 lower m fp ex = Inr None"
  by (simp add: analyze_mention_surprisal_def)

lemma analyze_bare:
  assumes "map_of ex (character m) = Some prof" and "detect_formulae_in_mention lower m fp = []"
  shows "analyze_mention_surprisal log2 lower m fp ex =
    Inr (Some \<lparr>mention_of = m, detected_formulae = [], primary_formula = None,
      atype = ''bare_mention'',
      probability = (if total_mentions prof > 0
         then real_of_int (total_mentions prof - sum_list (map snd (formula_counts prof)))
                / real_of_int (total_mentions prof)
         else 0),
      surprisal = (if 0 < (if total_mentions prof > 0
         then real_of_int (total_mentions prof - sum_list (map snd (formula_counts prof)))
                / real_of_int (total_mentions prof)
         else 0) then Fin (- log2 (if total_mentions prof > 0
         then real_of_int (total_mentions prof - sum_list (map snd (formula_counts prof)))
                / real_of_int (total_mentions prof)
         else 0)) else PInf),
      is_deviation = ((if total_mentions prof > 0
         then real_of_int (total_mentions prof - sum_list (map snd (formula_counts prof)))
                / real_of_int (total_mentions prof)
         else 0) < 3 / 10)\<rparr>)"
  using assms by (simp add: analyze_mention_surprisal_def guarded_surprisal_eq Let_def)

lemma analyze_formulaic:
  assumes "map_of ex (character m) = Some prof"
    and "detect_formulae_in_mention lower m fp = d # ds"
  shows "analyze_mention_surprisal log2 lower m fp ex =
    Inr (Some \<lparr>mention_of = m, detected_formulae = d # ds,
      primary_formula = Some (max_from frequency d ds),
      atype = ''formulaic'',
      probability = dict_get (formula_probabilities prof) (pattern (max_from frequency d ds)) 0,
      surprisal = (if 0 < dict_get (formula_probabilities prof) (pattern (max_from frequency d ds)) 0
         then Fin (- log2 (dict_get (formula_probabilities prof) (pattern (max_from frequency d ds)) 0))
         else PInf),
      is_deviation = (dict_get (formula_probabilities prof) (pattern (max_from frequency d ds)) 0 < 1 / 10)\<rparr>)"
  using assms by (simp add: analyze_mention_surprisal_def guarded_surprisal_eq Let_def py_max_def)

lemma analyze_with_profile:
  assumes "map_of ex (character m) = Some prof"
  shows "\<exists>a. analyze_mention_surprisal log2 lower m fp ex = Inr (Some a) \<and> mention_of a = m
     \<and> (atype a = ''bare_mention'' \<and> detect_formulae_in_mention lower m fp = []
        \<or> atype a = ''formulaic'' \<and> detect_formulae_in_mention lower m fp \<noteq> [])"
proof (cases "detect_formulae_in_mention lower m fp")
  case Nil
  show ?thesis unfolding analyze_bare [OF assms Nil] using Nil by simp
next
  case (Cons d ds)
  show ?thesis unfolding analyze_formulaic [OF assms Cons] using Cons by simp
qed

text \<open>
  Claim C3. A mention whose character has a profile and in which a formula is detected is
  classified \<open>formulaic\<close>; its primary formula is the first record of the detected list
  with the highest frequency (every record before it has a strictly smaller frequency,
  none after it a greater one); its probability is the stored probability of the primary
  formula's pattern, 0 when there is none; and it is a deviation iff the probability is
  strictly below 1/10, so not at exactly 1/10.
\<close>

theorem formulaic_mention_spec:
  assumes "map_of ex (character m) = Some prof"
    and "detect_formulae_in_mention lower m fp \<noteq> []"
  shows "\<exists>a pf pre suf.
      analyze_mention_surprisal log2 lower m fp ex = Inr (Some a)
    \<and> atype a = ''formulaic''
    \<and> primary_formula a = Some pf
    \<and> detect_formulae_in_mention lower m fp = pre @ pf # suf
    \<and> (\<forall>f \<in> set pre. frequency f < frequency pf)
    \<and> (\<forall>f \<in> set suf. frequency f \<le> frequency pf)
    \<and> probability a = (case map_of (formula_probabilities prof) (pattern pf) of
                          None \<Rightarrow> 0 | Some p \<Rightarrow> p)
    \<and> is_deviation a = (probability a < 1 / 10)
    \<and> (probability a = 1 / 10 \<longrightarrow> \<not> is_deviation a)"
proof -
  from assms(2) obtain d ds where d: "detect_formulae_in_mention lower m fp = d # ds"
    by (cases "detect_formulae_in_mention lower m fp") auto
  let ?pf = "max_from frequency d ds"
  from max_from_first [of d ds frequency] obtain pre suf where
    eq: "d # ds = pre @ ?pf # suf" and
    lt: "\<forall>f \<in> set pre. frequency f < frequency ?pf" and
    le: "\<forall>f \<in> set suf. frequency f \<le> frequency ?pf"
    by blast
  show ?thesis
    unfolding analyze_formulaic [OF assms(1) d] d
    using eq lt le by (auto simp: dict_get_def)
qed

theorem formulaic_mention_spec_witness:
  "map_of [(''Zeus'', tenth_profile)] (character zeus1) = Some tenth_profile
   \<and> detect_formulae_in_mention lower_ascii zeus1 dios_patterns \<noteq> []
   \<and> (\<exists>a. analyze_mention_surprisal log2_nearest lower_ascii zeus1 dios_patterns [(''Zeus'', tenth_profile)]
              = Inr (Some a)
          \<and> atype a = ''formulaic''
          \<and> primary_formula a = Some (hd (snd (hd dios_patterns)))
          \<and> probability a = 1 / 10
          \<and> \<not> is_deviation a)"
proof -
  have h1: "map_of [(''Zeus'', tenth_profile)] (character zeus1) = Some tenth_profile"
    by (simp add: zeus1_def)
  have d: "detect_formulae_in_mention lower_ascii zeus1 dios_patterns
             = hd (snd (hd dios_patterns)) # tl (snd (hd dios_patterns))"
    unfolding detect_zeus1 by (simp add: dios_patterns_def)
  then have h2: "detect_formulae_in_mention lower_ascii zeus1 dios_patterns \<noteq> []" by simp
  have m: "max_from frequency (hd (snd (hd dios_patterns))) (tl (snd (hd dios_patterns)))
             = hd (snd (hd dios_patterns))"
    by (simp add: dios_patterns_def)
  have p: "dict_get (formula_probabilities tenth_profile)
             (pattern (hd (snd (hd dios_patterns)))) 0 = 1 / 10"
    by (simp add: dict_get_def tenth_profile_def dios_patterns_def)
  from formulaic_mention_spec [OF h1 h2, of log2_nearest] obtain a where
    a: "analyze_mention_surprisal log2_nearest lower_ascii zeus1 dios_patterns [(''Zeus'', tenth_profile)]
          = Inr (Some a)" and
    t: "atype a = ''formulaic''" and
    b: "probability a = 1 / 10 \<longrightarrow> \<not> is_deviation a"
    by blast
  from a have "primary_formula a = Some (hd (snd (hd dios_patterns)))"
    and "probability a = 1 / 10"
    unfolding analyze_formulaic [OF h1 d] m p by auto
  with a t b h1 h2 show ?thesis by blast
qed

text \<open>
  Claim C4, amended. A mention whose character has a profile and in which no formula is
  detected is classified \<open>bare_mention\<close>; its probability is (total - sum of all counts) /
  total, and 0 when the total is not positive; whenever that probability is not negative,
  its surprisal is what \<^verbatim>\<open>calculate_surprisal\<close> returns for it, the negated logarithm of a
  positive probability and \<open>+inf\<close> at 0; and it is a deviation iff the probability is
  strictly below 3/10, so not at exactly 3/10.
\<close>

theorem bare_mention_spec:
  assumes "map_of ex (character m) = Some prof"
    and "detect_formulae_in_mention lower m fp = []"
  shows "\<exists>a.
      analyze_mention_surprisal log2 lower m fp ex = Inr (Some a)
    \<and> atype a = ''bare_mention''
    \<and> probability a =
        (if total_mentions prof > 0
         then real_of_int (total_mentions prof - sum_list (map snd (formula_counts prof)))
                / real_of_int (total_mentions prof)
         else 0)
    \<and> (total_mentions prof = 0 \<longrightarrow> probability a = 0)
    \<and> (0 \<le> probability a \<longrightarrow> calculate_surprisal log2 (probability a) = Inr (surprisal a))
    \<and> (0 < probability a \<longrightarrow> surprisal a = Fin (- log2 (probability a)))
    \<and> (probability a = 0 \<longrightarrow> surprisal a = PInf)
    \<and> is_deviation a = (probability a < 3 / 10)
    \<and> (probability a = 3 / 10 \<longrightarrow> \<not> is_deviation a)"
  unfolding analyze_bare [OF assms]
  by (simp add: calculate_surprisal_def)

theorem bare_mention_spec_witness:
  "map_of [(''Zeus'', three_tenths_profile)] (character zeus3) = Some three_tenths_profile
   \<and> detect_formulae_in_mention lower_ascii zeus3 dios_patterns = []
   \<and> (\<exists>a. analyze_mention_surprisal log2_nearest lower_ascii zeus3 dios_patterns
              [(''Zeus'', three_tenths_profile)] = Inr (Some a)
          \<and> atype a = ''bare_mention''
          \<and> probability a = 3 / 10
          \<and> surprisal a = Fin (- log2_nearest (3 / 10))
          \<and> \<not> is_deviation a)"
proof -
  have h1: "map_of [(''Zeus'', three_tenths_profile)] (character zeus3)
              = Some three_tenths_profile"
    by (simp add: zeus3_def)
  from bare_mention_spec [OF h1 detect_zeus3, of log2_nearest] obtain a where
    a: "analyze_mention_surprisal log2_nearest lower_ascii zeus3 dios_patterns
              [(''Zeus'', three_tenths_profile)] = Inr (Some a)" and
    t: "atype a = ''bare_mention''" and
    p: "probability a =
        (if total_mentions three_tenths_profile > 0
         then real_of_int (total_mentions three_tenths_profile
                 - sum_list (map snd (formula_counts three_tenths_profile)))
                / real_of_int (total_mentions three_tenths_profile)
         else 0)" and
    s: "0 < probability a \<longrightarrow> surprisal a = Fin (- log2_nearest (probability a))" and
    b: "probability a = 3 / 10 \<longrightarrow> \<not> is_deviation a"
    by blast
  from p have "probability a = 3 / 10" by (simp add: three_tenths_profile_def)
  with a t s b h1 detect_zeus3 show ?thesis by auto
qed

lemma ex_bare_analysis:
  "analyze_mention_surprisal log2 lower_ascii zeus3 dios_patterns
     (calculate_formula_expectations lower_ascii ex_mentions dios_patterns) =
   Inr (Some \<lparr>mention_of = zeus3, detected_formulae = [], primary_formula = None,
              atype = ''bare_mention'', probability = - 1 / 3, surprisal = PInf,
              is_deviation = True\<rparr>)"
proof -
  have p: "map_of (calculate_formula_expectations lower_ascii ex_mentions dios_patterns)
             (character zeus3)
           = Some \<lparr>total_mentions = 3, formula_counts = [(''dios'', 2), (''os'', 2)],
                   formula_probabilities = [(''dios'', 2 / 3), (''os'', 2 / 3)]\<rparr>"
    by (simp add: ex_expectations zeus3_def)
  show ?thesis unfolding analyze_bare [OF p detect_zeus3] by simp
qed

text \<open>
  On three mentions of Zeus with two patterns found together in two of them, the bare
  mention has probability -1/3: \<^verbatim>\<open>calculate_surprisal\<close> raises \<^verbatim>\<open>ValueError\<close> on it, and the
  analysis holds \<open>+inf\<close>.
\<close>

theorem bare_mention_counterexample:
  "analyze_mention_surprisal log2_nearest lower_ascii zeus3 dios_patterns
     (calculate_formula_expectations lower_ascii ex_mentions dios_patterns) =
   Inr (Some \<lparr>mention_of = zeus3, detected_formulae = [], primary_formula = None,
              atype = ''bare_mention'', probability = - 1 / 3, surprisal = PInf,
              is_deviation = True\<rparr>)
   \<and> calculate_surprisal log2_nearest (- 1 / 3) = Inl ValueError
   \<and> calculate_surprisal log2_nearest (- 1 / 3) \<noteq> Inr PInf"
  by (simp add: ex_bare_analysis calculate_surprisal_def)

text \<open>
  Claim C10. A mention is counted once for every formula detected in it, so the counts of
  a character can sum to more than its mentions: there are inputs on which the analysis
  of a bare mention reports a strictly negative probability. Whenever a bare mention's
  probability is at most 0, its surprisal is \<open>+inf\<close> and it is a deviation.
\<close>

theorem negative_bare_probability:
  "(\<exists>lower ms fp m prof a.
        m \<in> set ms
      \<and> map_of (calculate_formula_expectations lower ms fp) (character m) = Some prof
      \<and> total_mentions prof < sum_list (map snd (formula_counts prof))
      \<and> analyze_mention_surprisal log2 lower m fp (calculate_formula_expectations lower ms fp)
          = Inr (Some a)
      \<and> atype a = ''bare_mention'' \<and> probability a < 0)
   \<and> (\<forall>lower m fp ex a.
        analyze_mention_surprisal log2 lower m fp ex = Inr (Some a)
        \<and> atype a = ''bare_mention'' \<and> probability a \<le> 0
        \<longrightarrow> surprisal a = PInf \<and> is_deviation a)"
proof (rule conjI)
  let ?a = "\<lparr>mention_of = zeus3, detected_formulae = [], primary_formula = None,
              atype = ''bare_mention'', probability = - 1 / 3, surprisal = PInf,
              is_deviation = True\<rparr>"
  let ?prof = "\<lparr>total_mentions = 3, formula_counts = [(''dios'', 2), (''os'', 2)],
                 formula_probabilities = [(''dios'', 2 / 3), (''os'', 2 / 3)]\<rparr>"
  have "zeus3 \<in> set ex_mentions" by (simp add: ex_mentions_def)
  moreover have "map_of (calculate_formula_expectations lower_ascii ex_mentions dios_patterns)
             (character zeus3) = Some ?prof"
    by (simp add: ex_expectations zeus3_def)
  moreover have "total_mentions ?prof < sum_list (map snd (formula_counts ?prof))" by simp
  moreover note ex_bare_analysis
  moreover have "atype ?a = ''bare_mention'' \<and> probability ?a < 0" by simp
  ultimately show "\<exists>lower ms fp m prof a.
        m \<in> set ms
      \<and> map_of (calculate_formula_expectations lower ms fp) (character m) = Some prof
      \<and> total_mentions prof < sum_list (map snd (formula_counts prof))
      \<and> analyze_mention_surprisal log2 lower m fp (calculate_formula_expectations lower ms fp)
          = Inr (Some a)
      \<and> atype a = ''bare_mention'' \<and> probability a < 0"
    by blast
next
  show "\<forall>lower m fp ex a.
        analyze_mention_surprisal log2 lower m fp ex = Inr (Some a)
        \<and> atype a = ''bare_mention'' \<and> probability a \<le> 0
        \<longrightarrow> surprisal a = PInf \<and> is_deviation a"
  proof (intro allI impI)
  fix lower m fp ex a
  assume h: "analyze_mention_surprisal log2 lower m fp ex = Inr (Some a)
        \<and> atype a = ''bare_mention'' \<and> probability a \<le> 0"
  then obtain prof where prof: "map_of ex (character m) = Some prof"
    by (cases "map_of ex (character m)") (auto simp: analyze_no_profile)
  show "surprisal a = PInf \<and> is_deviation a"
  proof (cases "detect_formulae_in_mention lower m fp")
    case Nil
    from h show ?thesis unfolding analyze_bare [OF prof Nil] by (auto split: if_splits)
  next
    case (Cons d ds)
    from h show ?thesis unfolding analyze_formulaic [OF prof Cons] by auto
  qed
  qed
qed

theorem negative_bare_probability_witness:
  "analyze_mention_surprisal log2_nearest lower_ascii zeus3 dios_patterns
     (calculate_formula_expectations lower_ascii ex_mentions dios_patterns) =
   Inr (Some \<lparr>mention_of = zeus3, detected_formulae = [], primary_formula = None,
              atype = ''bare_mention'', probability = - 1 / 3, surprisal = PInf,
              is_deviation = True\<rparr>)
   \<and> (- 1 / 3 :: real) \<le> 0
   \<and> surprisal \<lparr>mention_of = zeus3, detected_formulae = [], primary_formula = None,
              atype = ''bare_mention'', probability = - 1 / 3, surprisal = PInf,
              is_deviation = True\<rparr> = PInf
   \<and> is_deviation \<lparr>mention_of = zeus3, detected_formulae = [], primary_formula = None,
              atype = ''bare_mention'', probability = - 1 / 3, surprisal = PInf,
              is_deviation = True\<rparr>"
proof -
  let ?a = "\<lparr>mention_of = zeus3, detected_formulae = [], primary_formula = None,
              atype = ''bare_mention'', probability = - 1 / 3, surprisal = PInf,
              is_deviation = True\<rparr>"
  have h: "analyze_mention_surprisal log2_nearest lower_ascii zeus3 dios_patterns
     (calculate_formula_expectations lower_ascii ex_mentions dios_patterns) = Inr (Some ?a)
        \<and> atype ?a = ''bare_mention'' \<and> probability ?a \<le> 0"
    using ex_bare_analysis by simp
  from negative_bare_probability [of log2_nearest] have
    "analyze_mention_surprisal log2_nearest lower_ascii zeus3 dios_patterns
     (calculate_formula_expectations lower_ascii ex_mentions dios_patterns) = Inr (Some ?a)
        \<and> atype ?a = ''bare_mention'' \<and> probability ?a \<le> 0
     \<longrightarrow> surprisal ?a = PInf \<and> is_deviation ?a"
    by blast
  with h have "surprisal ?a = PInf \<and> is_deviation ?a" by blast
  with h show ?thesis by simp
qed

lemma find_deviations_result:
  "\<exists>as. find_deviations log2 lower ms fp ex = Inr as
     \<and> map mention_of as = filter (\<lambda>m. map_of ex (character m) \<noteq> None) ms
     \<and> (\<forall>a \<in> set as. analyze_mention_surprisal log2 lower (mention_of a) fp ex = Inr (Some a)
            \<and> (atype a = ''bare_mention'' \<or> atype a = ''formulaic''))"
proof (induction ms)
  case Nil
  then show ?case by simp
next
  case (Cons m ms)
  then obtain as where IH: "find_deviations log2 lower ms fp ex = Inr as"
     "map mention_of as = filter (\<lambda>m. map_of ex (character m) \<noteq> None) ms"
     "\<forall>a \<in> set as. analyze_mention_surprisal log2 lower (mention_of a) fp ex = Inr (Some a)
            \<and> (atype a = ''bare_mention'' \<or> atype a = ''formulaic'')"
    by blast
  show ?case
  proof (cases "map_of ex (character m)")
    case None
    then show ?thesis using IH by (simp add: analyze_no_profile)
  next
    case (Some prof)
    from analyze_with_profile [OF Some, of log2 lower fp] obtain a where
      "analyze_mention_surprisal log2 lower m fp ex = Inr (Some a)" "mention_of a = m"
      "atype a = ''bare_mention'' \<or> atype a = ''formulaic''"
      by blast
    then show ?thesis using IH Some by simp
  qed
qed

text \<open>
  Claim C7. \<^verbatim>\<open>find_deviations\<close> raises nothing. Its result holds, in input order, one
  analysis for each mention whose character has a profile and none for any other mention;
  each analysis is the one \<^verbatim>\<open>analyze_mention_surprisal\<close> returns for its mention and is
  classified as exactly one of \<open>bare_mention\<close> and \<open>formulaic\<close>.
\<close>

theorem find_deviations_spec:
  "\<exists>as. find_deviations log2 lower ms fp ex = Inr as
     \<and> map mention_of as = filter (\<lambda>m. map_of ex (character m) \<noteq> None) ms
     \<and> (\<forall>a \<in> set as. analyze_mention_surprisal log2 lower (mention_of a) fp ex = Inr (Some a)
            \<and> (atype a = ''bare_mention'') \<noteq> (atype a = ''formulaic''))
     \<and> (\<forall>m \<in> set ms. map_of ex (character m) = None \<longrightarrow>
           analyze_mention_surprisal log2 lower m fp ex = Inr None \<and> m \<notin> mention_of ` set as)"
proof -
  from find_deviations_result [of log2 lower ms fp ex] obtain as where
    r: "find_deviations log2 lower ms fp ex = Inr as" and
    ms: "map mention_of as = filter (\<lambda>m. map_of ex (character m) \<noteq> None) ms" and
    a: "\<forall>a \<in> set as. analyze_mention_surprisal log2 lower (mention_of a) fp ex = Inr (Some a)
            \<and> (atype a = ''bare_mention'' \<or> atype a = ''formulaic'')"
    by blast
  have x: "\<forall>a \<in> set as. (atype a = ''bare_mention'') \<noteq> (atype a = ''formulaic'')"
    using a by auto
  have "mention_of ` set as = {m \<in> set ms. map_of ex (character m) \<noteq> None}"
    using ms by (metis set_filter set_map)
  then have n: "\<forall>m \<in> set ms. map_of ex (character m) = None \<longrightarrow>
           analyze_mention_surprisal log2 lower m fp ex = Inr None \<and> m \<notin> mention_of ` set as"
    by (simp add: analyze_no_profile)
  from r ms a x n show ?thesis by blast
qed

theorem find_deviations_spec_witness:
  "hera4 \<in> set ex_mentions
   \<and> map_of (calculate_formula_expectations lower_ascii ex_mentions dios_patterns)
        (character hera4) = None
   \<and> (\<exists>as. find_deviations log2_nearest lower_ascii ex_mentions dios_patterns
               (calculate_formula_expectations lower_ascii ex_mentions dios_patterns) = Inr as
          \<and> map mention_of as = [zeus1, zeus2, zeus3]
          \<and> hera4 \<notin> mention_of ` set as)
   \<and> analyze_mention_surprisal log2_nearest lower_ascii hera4 dios_patterns
        (calculate_formula_expectations lower_ascii ex_mentions dios_patterns) = Inr None"
proof -
  let ?ex = "calculate_formula_expectations lower_ascii ex_mentions dios_patterns"
  have h1: "hera4 \<in> set ex_mentions" by (simp add: ex_mentions_def)
  have h2: "map_of ?ex (character hera4) = None" by (simp add: ex_expectations hera4_def)
  have f: "filter (\<lambda>m. map_of ?ex (character m) \<noteq> None) ex_mentions = [zeus1, zeus2, zeus3]"
    unfolding ex_expectations by (simp add: ex_mentions_def zeus1_def zeus2_def zeus3_def hera4_def)
  from find_deviations_spec [of log2_nearest lower_ascii ex_mentions dios_patterns ?ex] obtain as where
    r: "find_deviations log2_nearest lower_ascii ex_mentions dios_patterns ?ex = Inr as" and
    ms: "map mention_of as = filter (\<lambda>m. map_of ?ex (character m) \<noteq> None) ex_mentions" and
    n: "\<forall>m \<in> set ex_mentions. map_of ?ex (character m) = None \<longrightarrow>
           analyze_mention_surprisal log2_nearest lower_ascii m dios_patterns ?ex = Inr None
           \<and> m \<notin> mention_of ` set as"
    by blast
  from n h1 h2 have "analyze_mention_surprisal log2_nearest lower_ascii hera4 dios_patterns ?ex = Inr None"
    and "hera4 \<notin> mention_of ` set as" by blast+
  with r ms f h1 h2 show ?thesis by auto
qed

section \<open>The deviation ranker\<close>

lemma float_less_irrefl: "\<not> float_less x x"
  by (cases x) simp_all

lemma float_not_less_trans:
  "\<not> float_less a b \<Longrightarrow> \<not> float_less b c \<Longrightarrow> \<not> float_less a c"
  by (cases a; cases b; cases c) simp_all

lemma set_insort_desc: "set (insort_desc a bs) = insert a (set bs)"
  by (induction bs) auto

lemma mset_insort_desc: "mset (insort_desc a bs) = add_mset a (mset bs)"
  by (induction bs) simp_all

lemma mset_sort_desc: "mset (sort_desc xs) = mset xs"
  by (induction xs) (simp_all add: sort_desc_def mset_insort_desc)

lemma sorted_insort_desc:
  "sorted_wrt (\<lambda>a b. \<not> float_less (surprisal a) (surprisal b)) bs
   \<Longrightarrow> sorted_wrt (\<lambda>a b. \<not> float_less (surprisal a) (surprisal b)) (insort_desc a bs)"
proof (induction bs)
  case Nil
  then show ?case by simp
next
  case (Cons b bs)
  show ?case
  proof (cases "float_less (surprisal a) (surprisal b)")
    case True
    then have "\<not> float_less (surprisal b) (surprisal a)"
      by (cases "surprisal a"; cases "surprisal b") simp_all
    with True Cons show ?thesis by (simp add: set_insort_desc)
  next
    case False
    have "\<not> float_less (surprisal a) (surprisal x)" if "x \<in> set bs" for x
    proof -
      from Cons.prems that have "\<not> float_less (surprisal b) (surprisal x)" by simp
      with False show ?thesis by (rule float_not_less_trans)
    qed
    with False Cons.prems show ?thesis by simp
  qed
qed

lemma sorted_sort_desc:
  "sorted_wrt (\<lambda>a b. \<not> float_less (surprisal a) (surprisal b)) (sort_desc xs)"
  by (induction xs) (simp_all add: sort_desc_def sorted_insort_desc)

lemma filter_insort_desc:
  "filter (\<lambda>x. surprisal x = k) (insort_desc a bs)
     = (if surprisal a = k then a # filter (\<lambda>x. surprisal x = k) bs
        else filter (\<lambda>x. surprisal x = k) bs)"
  by (induction bs) (auto simp: float_less_irrefl)

lemma filter_sort_desc:
  "filter (\<lambda>x. surprisal x = k) (sort_desc xs) = filter (\<lambda>x. surprisal x = k) xs"
  by (induction xs) (simp_all add: sort_desc_def filter_insort_desc)

text \<open>
  Claim C5. \<^verbatim>\<open>identify_high_surprisal_moments\<close> returns the analyses whose surprisal is
  strictly greater than the threshold, each as often as it occurs in the input, in
  descending order of surprisal; the analyses of any one surprisal value keep their input
  order. Analyses with surprisals 5, 3, 3, 7 at threshold 3 give the one with 7, then the
  one with 5.
\<close>

theorem identify_high_surprisal_moments_spec:
  "mset (identify_high_surprisal_moments analyses t)
     = mset (filter (\<lambda>a. float_less t (surprisal a)) analyses)
   \<and> sorted_wrt (\<lambda>a b. \<not> float_less (surprisal a) (surprisal b))
        (identify_high_surprisal_moments analyses t)
   \<and> (\<forall>k. filter (\<lambda>a. surprisal a = k) (identify_high_surprisal_moments analyses t)
            = filter (\<lambda>a. surprisal a = k) (filter (\<lambda>a. float_less t (surprisal a)) analyses))
   \<and> (surprisal a1 = Fin 5 \<and> surprisal a2 = Fin 3 \<and> surprisal a3 = Fin 3 \<and> surprisal a4 = Fin 7
        \<longrightarrow> identify_high_surprisal_moments [a1, a2, a3, a4] (Fin 3) = [a4, a1])"
  by (simp add: identify_high_surprisal_moments_def mset_sort_desc sorted_sort_desc
        filter_sort_desc) (simp add: sort_desc_def)

theorem identify_high_surprisal_moments_spec_witness:
  "surprisal (ranked 1 (1 / 32) (Fin 5)) = Fin 5 \<and> surprisal (ranked 2 (1 / 8) (Fin 3)) = Fin 3
   \<and> surprisal (ranked 3 (1 / 8) (Fin 3)) = Fin 3 \<and> surprisal (ranked 4 (1 / 128) (Fin 7)) = Fin 7
   \<and> identify_high_surprisal_moments
        [ranked 1 (1 / 32) (Fin 5), ranked 2 (1 / 8) (Fin 3), ranked 3 (1 / 8) (Fin 3), ranked 4 (1 / 128) (Fin 7)] (Fin 3)
       = [ranked 4 (1 / 128) (Fin 7), ranked 1 (1 / 32) (Fin 5)]"
proof -
  have h: "surprisal (ranked 1 (1 / 32) (Fin 5)) = Fin 5 \<and> surprisal (ranked 2 (1 / 8) (Fin 3)) = Fin 3
   \<and> surprisal (ranked 3 (1 / 8) (Fin 3)) = Fin 3 \<and> surprisal (ranked 4 (1 / 128) (Fin 7)) = Fin 7"
    by (simp add: ranked_def)
  from identify_high_surprisal_moments_spec
    [of "[]" PInf "ranked 1 (1 / 32) (Fin 5)" "ranked 2 (1 / 8) (Fin 3)" "ranked 3 (1 / 8) (Fin 3)" "ranked 4 (1 / 128) (Fin 7)"] h
  have "identify_high_surprisal_moments
        [ranked 1 (1 / 32) (Fin 5), ranked 2 (1 / 8) (Fin 3), ranked 3 (1 / 8) (Fin 3), ranked 4 (1 / 128) (Fin 7)] (Fin 3)
       = [ranked 4 (1 / 128) (Fin 7), ranked 1 (1 / 32) (Fin 5)]" by blast
  with h show ?thesis by blast
qed

lemma ties_keep_input_order:
  "identify_high_surprisal_moments
        [ranked 1 (1 / 32) (Fin 5), ranked 2 0 PInf, ranked 3 (1 / 32) (Fin 5), ranked 4 0 PInf, ranked 5 (1 / 4) (Fin 2)] (Fin 3)
       = [ranked 2 0 PInf, ranked 4 0 PInf, ranked 1 (1 / 32) (Fin 5), ranked 3 (1 / 32) (Fin 5)]"
  by (simp add: identify_high_surprisal_moments_def sort_desc_def ranked_def)

section \<open>Serialisation\<close>

lemma serialize_entry_surprisal:
  "serialize_entry a = Inr e \<Longrightarrow>
     e_surprisal e = (case surprisal a of PInf \<Rightarrow> JInt 999 | Fin x \<Rightarrow> JFloat x)"
  by (auto simp: serialize_entry_def Let_def split: if_splits option.splits)

lemma serialize_entry_total:
  "atype a = ''formulaic'' \<longrightarrow> primary_formula a \<noteq> None \<Longrightarrow> \<exists>e. serialize_entry a = Inr e"
  by (auto simp: serialize_entry_def Let_def)

lemma serialize_all_nth:
  "serialize_all as = Inr es \<Longrightarrow>
     length es = length as \<and> (\<forall>i < length as. serialize_entry (as ! i) = Inr (es ! i))"
proof (induction as arbitrary: es)
  case Nil
  then show ?case by simp
next
  case (Cons a as)
  from Cons.prems obtain x xs where
    x: "serialize_entry a = Inr x" and xs: "serialize_all as = Inr xs" and es: "es = x # xs"
    by (auto split: sum.splits)
  from Cons.IH [OF xs] have l: "length xs = length as"
    and n: "\<forall>i < length as. serialize_entry (as ! i) = Inr (xs ! i)" by simp_all
  show ?case
  proof (intro conjI allI impI)
    show "length es = length (a # as)" using l es by simp
  next
    fix i assume "i < length (a # as)"
    then show "serialize_entry ((a # as) ! i) = Inr (es ! i)"
      using x n es by (cases i) simp_all
  qed
qed

lemma serialize_all_total:
  "\<forall>a \<in> set as. atype a = ''formulaic'' \<longrightarrow> primary_formula a \<noteq> None
   \<Longrightarrow> \<exists>es. serialize_all as = Inr es"
proof (induction as)
  case Nil
  then show ?case by simp
next
  case (Cons a as)
  then obtain es where "serialize_all as = Inr es" by auto
  moreover from Cons.prems obtain e where "serialize_entry a = Inr e"
    using serialize_entry_total [of a] by auto
  ultimately show ?case by simp
qed

lemma stored_surprisal_cases:
  assumes "s = (case v of PInf \<Rightarrow> JInt 999 | Fin x \<Rightarrow> JFloat x)"
  shows "(s = JInt 999 \<longleftrightarrow> v = PInf)
       \<and> (json_value s = 999 \<longleftrightarrow> v = PInf \<or> v = Fin 999)"
  using assms by (cases v) simp_all

text \<open>
  Claim C8, amended. \<^verbatim>\<open>save_deviation_data\<close> succeeds on every list in which each
  formulaic analysis has a primary formula. It stores the integer 999 for a surprisal of
  \<open>+inf\<close> and the surprisal itself, as a float, otherwise. So the stored number is the
  integer 999 iff the surprisal is \<open>+inf\<close>, and it has the value 999 iff the surprisal is
  \<open>+inf\<close> or the finite value 999.
\<close>

theorem save_deviation_data_surprisal:
  "((\<forall>a \<in> set analyses. atype a = ''formulaic'' \<longrightarrow> primary_formula a \<noteq> None)
      \<longrightarrow> (\<exists>d. save_deviation_data analyses high_surprisal = Inr d))
   \<and> (\<forall>d. save_deviation_data analyses high_surprisal = Inr d \<longrightarrow>
         length (all_analyses d) = length analyses
       \<and> (\<forall>i < length analyses.
            e_surprisal (all_analyses d ! i)
              = (case surprisal (analyses ! i) of PInf \<Rightarrow> JInt 999 | Fin x \<Rightarrow> JFloat x)
          \<and> (e_surprisal (all_analyses d ! i) = JInt 999 \<longleftrightarrow> surprisal (analyses ! i) = PInf)
          \<and> (json_value (e_surprisal (all_analyses d ! i)) = 999
               \<longleftrightarrow> surprisal (analyses ! i) = PInf \<or> surprisal (analyses ! i) = Fin 999)))"
proof (rule conjI)
  show "(\<forall>a \<in> set analyses. atype a = ''formulaic'' \<longrightarrow> primary_formula a \<noteq> None)
      \<longrightarrow> (\<exists>d. save_deviation_data analyses high_surprisal = Inr d)"
  proof
    assume "\<forall>a \<in> set analyses. atype a = ''formulaic'' \<longrightarrow> primary_formula a \<noteq> None"
    then obtain es where "serialize_all analyses = Inr es"
      using serialize_all_total by blast
    then show "\<exists>d. save_deviation_data analyses high_surprisal = Inr d"
      by (simp add: save_deviation_data_def)
  qed
next
  show "\<forall>d. save_deviation_data analyses high_surprisal = Inr d \<longrightarrow>
         length (all_analyses d) = length analyses
       \<and> (\<forall>i < length analyses.
            e_surprisal (all_analyses d ! i)
              = (case surprisal (analyses ! i) of PInf \<Rightarrow> JInt 999 | Fin x \<Rightarrow> JFloat x)
          \<and> (e_surprisal (all_analyses d ! i) = JInt 999 \<longleftrightarrow> surprisal (analyses ! i) = PInf)
          \<and> (json_value (e_surprisal (all_analyses d ! i)) = 999
               \<longleftrightarrow> surprisal (analyses ! i) = PInf \<or> surprisal (analyses ! i) = Fin 999))"
  proof (intro allI impI)
    fix d assume "save_deviation_data analyses high_surprisal = Inr d"
    then obtain es where es: "serialize_all analyses = Inr es" and d: "all_analyses d = es"
      by (auto simp: save_deviation_data_def split: sum.splits)
    from serialize_all_nth [OF es] have l: "length es = length analyses"
      and n: "\<forall>i < length analyses. serialize_entry (analyses ! i) = Inr (es ! i)" by simp_all
    have F: "e_surprisal (es ! i)
              = (case surprisal (analyses ! i) of PInf \<Rightarrow> JInt 999 | Fin x \<Rightarrow> JFloat x)
          \<and> (e_surprisal (es ! i) = JInt 999 \<longleftrightarrow> surprisal (analyses ! i) = PInf)
          \<and> (json_value (e_surprisal (es ! i)) = 999
               \<longleftrightarrow> surprisal (analyses ! i) = PInf \<or> surprisal (analyses ! i) = Fin 999)"
      if "i < length analyses" for i
    proof -
      from n that have "serialize_entry (analyses ! i) = Inr (es ! i)" by simp
      then have s: "e_surprisal (es ! i)
              = (case surprisal (analyses ! i) of PInf \<Rightarrow> JInt 999 | Fin x \<Rightarrow> JFloat x)"
        by (rule serialize_entry_surprisal)
      from s stored_surprisal_cases [OF s] show ?thesis by blast
    qed
    show "length (all_analyses d) = length analyses
       \<and> (\<forall>i < length analyses.
            e_surprisal (all_analyses d ! i)
              = (case surprisal (analyses ! i) of PInf \<Rightarrow> JInt 999 | Fin x \<Rightarrow> JFloat x)
          \<and> (e_surprisal (all_analyses d ! i) = JInt 999 \<longleftrightarrow> surprisal (analyses ! i) = PInf)
          \<and> (json_value (e_surprisal (all_analyses d ! i)) = 999
               \<longleftrightarrow> surprisal (analyses ! i) = PInf \<or> surprisal (analyses ! i) = Fin 999))"
      unfolding d using l F by blast
  qed
qed

theorem save_deviation_data_surprisal_witness:
  "save_deviation_data [ranked 1 0 PInf, sentinel_clash] [] =
     Inr \<lparr>all_analyses = [sentinel_clash_entry\<lparr>e_line_num := 1, e_probability := 0, e_surprisal := JInt 999\<rparr>,
                          sentinel_clash_entry],
          high_surprisal_count = 0, high_surprisal_threshold = 3\<rparr>
   \<and> (0::nat) < length [ranked 1 0 PInf, sentinel_clash]
   \<and> (1::nat) < length [ranked 1 0 PInf, sentinel_clash]
   \<and> surprisal ([ranked 1 0 PInf, sentinel_clash] ! 0) = PInf
   \<and> surprisal ([ranked 1 0 PInf, sentinel_clash] ! 1) = Fin 999
   \<and> e_surprisal (all_analyses
        \<lparr>all_analyses = [sentinel_clash_entry\<lparr>e_line_num := 1, e_probability := 0, e_surprisal := JInt 999\<rparr>,
                          sentinel_clash_entry],
          high_surprisal_count = 0, high_surprisal_threshold = 3\<rparr> ! 0) = JInt 999
   \<and> json_value (e_surprisal (all_analyses
        \<lparr>all_analyses = [sentinel_clash_entry\<lparr>e_line_num := 1, e_probability := 0, e_surprisal := JInt 999\<rparr>,
                          sentinel_clash_entry],
          high_surprisal_count = 0, high_surprisal_threshold = 3\<rparr> ! 1)) = 999"
proof -
  let ?as = "[ranked 1 0 PInf, sentinel_clash]"
  let ?d = "\<lparr>all_analyses = [sentinel_clash_entry\<lparr>e_line_num := 1, e_probability := 0, e_surprisal := JInt 999\<rparr>,
                          sentinel_clash_entry],
          high_surprisal_count = 0, high_surprisal_threshold = 3\<rparr>"
  have ev: "save_deviation_data ?as [] = Inr ?d"
    by (simp add: save_deviation_data_def serialize_entry_def sentinel_clash_def
          sentinel_clash_entry_def ranked_def)
  have l0: "(0::nat) < length ?as" and l1: "(1::nat) < length ?as" by simp_all
  have s0: "surprisal (?as ! 0) = PInf" by (simp add: ranked_def)
  have s1: "surprisal (?as ! 1) = Fin 999" by (simp add: sentinel_clash_def ranked_def)
  from save_deviation_data_surprisal [of ?as "[]"] ev
  have all: "\<forall>i < length ?as.
            e_surprisal (all_analyses ?d ! i)
              = (case surprisal (?as ! i) of PInf \<Rightarrow> JInt 999 | Fin x \<Rightarrow> JFloat x)
          \<and> (e_surprisal (all_analyses ?d ! i) = JInt 999 \<longleftrightarrow> surprisal (?as ! i) = PInf)
          \<and> (json_value (e_surprisal (all_analyses ?d ! i)) = 999
               \<longleftrightarrow> surprisal (?as ! i) = PInf \<or> surprisal (?as ! i) = Fin 999)"
    by blast
  from all l0 s0 have r0: "e_surprisal (all_analyses ?d ! 0) = JInt 999" by blast
  from all l1 s1 have r1: "json_value (e_surprisal (all_analyses ?d ! 1)) = 999" by blast
  from ev l0 l1 s0 s1 r0 r1 show ?thesis by blast
qed

text \<open>
  A finite surprisal of 999 is stored as a number equal to the sentinel.
\<close>

theorem sentinel_counterexample:
  "save_deviation_data [sentinel_clash] [] =
     Inr \<lparr>all_analyses = [sentinel_clash_entry], high_surprisal_count = 0,
          high_surprisal_threshold = 3\<rparr>
   \<and> json_value (e_surprisal sentinel_clash_entry) = 999
   \<and> surprisal sentinel_clash \<noteq> PInf"
  by (simp add: save_deviation_data_def serialize_entry_def sentinel_clash_def
        sentinel_clash_entry_def ranked_def)

end
